theory Spec2Isabelle
  imports Main "HOL-Library.Char_ord" "HOL-Library.List_Lexorder" "HOL-Library.Multiset"
begin

section \<open>Text primitives of the source language\<close>

text \<open>
  Python strings are modelled as \<^typ>\<open>string\<close>. Comparison of strings is the
  lexicographic order on character codes, which is what Python's \<open>sorted\<close> and
  \<open>list.sort\<close> use on \<open>str\<close>. Text is taken to be ASCII: \<open>str.strip\<close>,
  \<open>str.isspace\<close> and \<open>str.lower\<close> are modelled on the ASCII range.
\<close>

definition whitespace_chars :: "char list" where
  "whitespace_chars =
     [CHR 0x09, CHR 0x0A, CHR 0x0B, CHR 0x0C, CHR 0x0D,
      CHR 0x1C, CHR 0x1D, CHR 0x1E, CHR 0x1F, CHR 0x20]"

definition isspace_char :: "char \<Rightarrow> bool" where
  "isspace_char c = (c \<in> set whitespace_chars)"

text \<open>\<open>s.isspace()\<close>: at least one character, and all of them whitespace.\<close>

definition isspace :: "string \<Rightarrow> bool" where
  "isspace s = (s \<noteq> [] \<and> list_all isspace_char s)"

text \<open>\<open>s.strip()\<close>: whitespace removed at both ends.\<close>

definition strip :: "string \<Rightarrow> string" where
  "strip s = rev (dropWhile isspace_char (rev (dropWhile isspace_char s)))"

definition startswith :: "string \<Rightarrow> string \<Rightarrow> bool" where
  "startswith s t = (take (length t) s = t)"

definition endswith :: "string \<Rightarrow> string \<Rightarrow> bool" where
  "endswith s t = (length t \<le> length s \<and> drop (length s - length t) s = t)"

definition lower_char :: "char \<Rightarrow> char" where
  "lower_char c =
     (case map_of (zip ''ABCDEFGHIJKLMNOPQRSTUVWXYZ'' ''abcdefghijklmnopqrstuvwxyz'') c of
        Some d \<Rightarrow> d
      | None \<Rightarrow> c)"

definition lower :: "string \<Rightarrow> string" where
  "lower s = map lower_char s"

text \<open>\<open>s.split('/')\<close> and \<open>'/'.join(xs)\<close>.\<close>

fun split_sep :: "string \<Rightarrow> string list" where
  "split_sep [] = [[]]"
| "split_sep (c # cs) =
     (if c = CHR ''/'' then [] # split_sep cs
      else (case split_sep cs of
              [] \<Rightarrow> [[c]]
            | w # ws \<Rightarrow> (c # w) # ws))"

fun join_sep :: "string list \<Rightarrow> string" where
  "join_sep [] = []"
| "join_sep [x] = x"
| "join_sep (x # y # ys) = x @ ''/'' @ join_sep (y # ys)"

section \<open>The file system seen by the program\<close>

text \<open>
  The program observes the file system through three calls of \<open>pathlib\<close>:
  \<open>Path(p).is_file()\<close>, \<open>Path(p).read_text(encoding='utf-8')\<close>, where
  \<open>None\<close> stands for the \<open>IOError\<close> the source catches, and
  \<open>Path(p).resolve()\<close>. A file system is a record of these three observations.
  A check and a later read are independent observations, as they are for the program.
  A file that can be read holds text: content that is not valid UTF-8 (the source does
  not catch the \<open>UnicodeDecodeError\<close> of such a read) is outside the model.
\<close>

record filesystem =
  is_file :: "string \<Rightarrow> bool"
  read_text :: "string \<Rightarrow> string option"
  resolve :: "string \<Rightarrow> string"

section \<open>PathResolver: \<open>get_display_path\<close>\<close>

text \<open>
  POSIX paths. \<open>norm_comps\<close> is the component loop of \<open>posixpath.normpath\<close>,
  \<open>abs_comps\<close> the component list \<open>os.path.relpath\<close> takes from an absolute path,
  \<open>commonprefix\<close> and \<open>relpath\<close> follow \<open>posixpath\<close>. The \<open>ValueError\<close>
  branch of \<open>get_display_path\<close> is raised by \<open>relpath\<close> for an empty path only
  (which \<open>str(Path(..))\<close> never is) and on Windows across drives; it has no POSIX run.
\<close>

definition is_absolute :: "string \<Rightarrow> bool" where
  "is_absolute p = startswith p ''/''"

fun norm_comps :: "bool \<Rightarrow> string list \<Rightarrow> string list \<Rightarrow> string list" where
  "norm_comps initial_slashes new_comps [] = new_comps"
| "norm_comps initial_slashes new_comps (part # comps) =
     (if part = '''' \<or> part = ''.'' then norm_comps initial_slashes new_comps comps
      else if part \<noteq> ''..'' \<or> (\<not> initial_slashes \<and> new_comps = [])
                \<or> (new_comps \<noteq> [] \<and> last new_comps = ''..'')
      then norm_comps initial_slashes (new_comps @ [part]) comps
      else if new_comps \<noteq> [] then norm_comps initial_slashes (butlast new_comps) comps
      else norm_comps initial_slashes new_comps comps)"

definition abs_comps :: "string \<Rightarrow> string list" where
  "abs_comps p = norm_comps True [] (split_sep p)"

fun commonprefix :: "string list \<Rightarrow> string list \<Rightarrow> string list" where
  "commonprefix (x # xs) (y # ys) = (if x = y then x # commonprefix xs ys else [])"
| "commonprefix _ _ = []"

definition relpath :: "string \<Rightarrow> string \<Rightarrow> string" where
  "relpath path start =
     (let start_list = abs_comps start;
          path_list = abs_comps path;
          i = length (commonprefix start_list path_list);
          rel_list = replicate (length start_list - i) ''..'' @ drop i path_list
      in if rel_list = [] then ''.'' else join_sep rel_list)"

text \<open>\<open>Path(s).as_posix()\<close> for a relative or absolute POSIX path string.\<close>

definition as_posix :: "string \<Rightarrow> string" where
  "as_posix s =
     (let parts = filter (\<lambda>c. c \<noteq> '''' \<and> c \<noteq> ''.'') (split_sep s)
      in if is_absolute s then ''/'' @ join_sep parts
         else if parts = [] then ''.'' else join_sep parts)"

definition get_display_path :: "filesystem \<Rightarrow> string \<Rightarrow> string \<Rightarrow> string" where
  "get_display_path fs absolute_path base_dir =
     (let absolute_path' =
            (if \<not> is_absolute absolute_path
             then resolve fs (base_dir @ ''/'' @ absolute_path)
             else absolute_path);
          relative_path_str = relpath absolute_path' base_dir;
          display_path = as_posix relative_path_str
      in if \<not> (startswith display_path ''../'' \<or> startswith display_path ''./''
                \<or> display_path = ''.'' \<or> is_absolute display_path)
         then ''./'' @ display_path
         else if display_path = ''.'' then ''./''
         else display_path)"

section \<open>ScopeStore: the configuration document\<close>

text \<open>
  The document is one JSON object. Its keys are scope names, mapped to scope objects,
  and the two metadata keys, mapped to strings. A scope object is modelled with its
  three standard keys present, as \<open>_initialize_scope_dict\<close> creates it and as
  \<open>load_config\<close> completes it.
\<close>

record scope =
  files :: "string list"
  context_file :: "string option"
  prompt_file :: "string option"

datatype entry = Str string | ScopeDict scope

type_synonym config = "string \<rightharpoonup> entry"

definition CURRENT_SCOPE_KEY :: string where
  "CURRENT_SCOPE_KEY = ''_klyp_current_scope''"

definition KLYP_CONFIG_VERSION_KEY :: string where
  "KLYP_CONFIG_VERSION_KEY = ''_klyp_version''"

definition RESERVED_KLYP_KEYS :: "string list" where
  "RESERVED_KLYP_KEYS = [CURRENT_SCOPE_KEY, KLYP_CONFIG_VERSION_KEY]"

definition SCOPE_ACTION_COMMAND_NAMES :: "string list" where
  "SCOPE_ACTION_COMMAND_NAMES =
     map lower [''add'', ''a'', ''new'', ''mk'', ''set'', ''s'', ''delete'', ''del'', ''rm'',
                ''rename'', ''ren'', ''mv'', ''list'', ''ls'']"

text \<open>
  \<open>RESERVED_COMMAND_NAMES\<close> is empty at import time and is filled by \<open>main_cli\<close>
  (each \<open>add_cmd_to_reserved\<close> call, then the lowered metadata keys) before any
  command handler runs; this is its value during every handler.
\<close>

definition RESERVED_COMMAND_NAMES :: "string list" where
  "RESERVED_COMMAND_NAMES =
     [''init'', ''scope'', ''use'', ''u'', ''add'', ''remove'', ''rmv'', ''copy'', ''cp'',
      ''run'', ''status'', ''st'', ''update'', ''help'', ''h'']
     @ map lower RESERVED_KLYP_KEYS"

definition initialize_scope_dict :: scope where
  "initialize_scope_dict = \<lparr>files = [], context_file = None, prompt_file = None\<rparr>"

text \<open>The first component of the pair \<open>is_valid_scope_name\<close> returns.\<close>

definition is_valid_scope_name :: "string \<Rightarrow> bool" where
  "is_valid_scope_name scope_name =
     (if scope_name = '''' then False
      else if scope_name \<in> set RESERVED_KLYP_KEYS then False
      else if lower scope_name \<in> set RESERVED_COMMAND_NAMES then False
      else if lower scope_name \<in> set SCOPE_ACTION_COMMAND_NAMES then False
      else True)"

text \<open>
  \<open>get_current_scope_name\<close> is \<open>config.get(CURRENT_SCOPE_KEY)\<close>, of declared type
  \<open>str | None\<close>: the stored pointer, read without any check.
\<close>

definition get_current_scope_name :: "config \<Rightarrow> string option" where
  "get_current_scope_name config =
     (case config CURRENT_SCOPE_KEY of
        Some (Str scope_name) \<Rightarrow> Some scope_name
      | _ \<Rightarrow> None)"

definition get_scope_data :: "config \<Rightarrow> string \<Rightarrow> scope option" where
  "get_scope_data config scope_name =
     (if scope_name = '''' \<or> \<not> is_valid_scope_name scope_name then None
      else (case config scope_name of
              Some (ScopeDict scope_item) \<Rightarrow> Some scope_item
            | _ \<Rightarrow> None))"

text \<open>
  \<open>save_config\<close> rewrites the file list of every scope object whose key does not start
  with \<open>_klyp_\<close> as \<open>sorted(list(set(..)))\<close> and writes the document. The result
  is the document written. A failing write (the source exits with status 1 and the old
  document stays) is not part of the model.
\<close>

definition save_entry :: "string \<Rightarrow> entry \<Rightarrow> entry" where
  "save_entry key v =
     (case v of
        ScopeDict sc \<Rightarrow>
          if \<not> startswith key ''_klyp_''
          then ScopeDict (sc\<lparr>files := sort (remdups (files sc))\<rparr>)
          else v
      | Str _ \<Rightarrow> v)"

definition save_config :: "config \<Rightarrow> config" where
  "save_config data = (\<lambda>key. map_option (save_entry key) (data key))"

section \<open>ContentAssembler: \<open>_get_formatted_scope_content\<close>\<close>

text \<open>
  Every \<open>sys.exit(1)\<close> of the function is a \<open>failure\<close>, every yellow line it
  prints is a \<open>message\<close>. The function returns the messages printed, in order, and
  either the failure or the tuple \<open>(final_str, files_read_count, len(final_str),
  actual_scope_name)\<close>.
\<close>

datatype failure =
    NoActiveScope
  | ScopeNotFound string
  | MissingTrackedFiles "string list"
  | OldScopeNotFound string
  | InvalidNewName string
  | NewNameExists string
  | InvalidTargetScope string
  | InvalidScopeName string
  | NotAFile string
  | UsageError

datatype message =
    ContextUnreadable string
  | ContextMissing string
  | FileUnreadable string
  | NoFilesReadable
  | PromptUnreadable string
  | PromptMissing string
  | CompletelyEmpty
  | EffectivelyEmpty

type_synonym content = "string \<times> nat \<times> nat \<times> string"

text \<open>Step 1, the context file: the stripped text (empty when nothing is read).\<close>

definition context_section :: "filesystem \<Rightarrow> string \<Rightarrow> scope \<Rightarrow> string \<times> message list" where
  "context_section fs project_root_dir scope_data =
     (case context_file scope_data of
        None \<Rightarrow> ('''', [])
      | Some context_file_path_str \<Rightarrow>
          if context_file_path_str = '''' then ('''', [])
          else if is_file fs context_file_path_str then
            (case read_text fs context_file_path_str of
               Some text \<Rightarrow> (strip text, [])
             | None \<Rightarrow>
                 ('''', [ContextUnreadable
                          (get_display_path fs context_file_path_str project_root_dir)]))
          else ('''', [ContextMissing
                        (get_display_path fs context_file_path_str project_root_dir)]))"

text \<open>
  Step 2, the code files: the tuples \<open>(display_p, abs_path_str)\<close> in the order of
  the stable \<open>sort(key=lambda item: item[0])\<close>, then the split into missing and
  existing ones.
\<close>

definition path_tuples_for_sorting ::
  "filesystem \<Rightarrow> string \<Rightarrow> string list \<Rightarrow> (string \<times> string) list" where
  "path_tuples_for_sorting fs project_root_dir file_paths_str_list =
     sort_key fst
       (map (\<lambda>abs_path_str. (get_display_path fs abs_path_str project_root_dir, abs_path_str))
            file_paths_str_list)"

definition missing_files_display :: "filesystem \<Rightarrow> (string \<times> string) list \<Rightarrow> string list" where
  "missing_files_display fs tuples = map fst (filter (\<lambda>t. \<not> is_file fs (snd t)) tuples)"

definition files_to_process_tuples ::
  "filesystem \<Rightarrow> (string \<times> string) list \<Rightarrow> (string \<times> string) list" where
  "files_to_process_tuples fs tuples = filter (\<lambda>t. is_file fs (snd t)) tuples"

definition manifest_parts :: "string list \<Rightarrow> string list" where
  "manifest_parts dps =
     [''Project Structure:\<newline>```\<newline>''] @ map (\<lambda>dp. dp @ ''\<newline>'') dps
       @ [''```\<newline>\<newline>'']"

definition file_block :: "string \<Rightarrow> string \<Rightarrow> string" where
  "file_block dp content =
     dp @ '':\<newline>```\<newline>'' @ content @ ''\<newline>```\<newline>\<newline>''"

text \<open>
  The loop over the files to process: the blocks appended, \<open>files_read_count\<close> and
  the warnings of the reads that raised \<open>IOError\<close>.
\<close>

fun read_file_blocks ::
  "filesystem \<Rightarrow> (string \<times> string) list \<Rightarrow> string list \<times> nat \<times> message list" where
  "read_file_blocks fs [] = ([], 0, [])"
| "read_file_blocks fs ((dp, abs_p_str) # rest) =
     (case read_file_blocks fs rest of
        (blocks, files_read_count, msgs) \<Rightarrow>
          (case read_text fs abs_p_str of
             Some text \<Rightarrow> (file_block dp (strip text) # blocks, Suc files_read_count, msgs)
           | None \<Rightarrow> (blocks, files_read_count, FileUnreadable dp # msgs)))"

definition code_section ::
  "filesystem \<Rightarrow> string list \<Rightarrow> (string \<times> string) list \<Rightarrow> string list
     \<Rightarrow> string list \<times> nat \<times> message list" where
  "code_section fs file_paths_str_list to_process output_parts =
     (if to_process \<noteq> [] then
        (case read_file_blocks fs to_process of
           (blocks, files_read_count, msgs) \<Rightarrow>
             (output_parts
                @ (if output_parts \<noteq> [] \<and> last output_parts \<noteq> ''''
                      \<and> \<not> isspace (last output_parts)
                   then [''\<newline>\<newline>''] else [])
                @ manifest_parts (map fst to_process)
                @ blocks,
              files_read_count,
              msgs @ (if files_read_count = 0 \<and> file_paths_str_list \<noteq> []
                      then [NoFilesReadable] else [])))
      else (output_parts, 0, []))"

text \<open>
  Step 3, the prompt file: the parts with the prompt appended, the stripped prompt text
  and the warnings.
\<close>

definition prompt_section ::
  "filesystem \<Rightarrow> string \<Rightarrow> scope \<Rightarrow> string list
     \<Rightarrow> string list \<times> string \<times> message list" where
  "prompt_section fs project_root_dir scope_data output_parts =
     (case prompt_file scope_data of
        None \<Rightarrow> (output_parts, '''', [])
      | Some prompt_file_path_str \<Rightarrow>
          if prompt_file_path_str = '''' then (output_parts, '''', [])
          else if is_file fs prompt_file_path_str then
            (case read_text fs prompt_file_path_str of
               Some text \<Rightarrow>
                 (let prompt_content_str = strip text in
                  if prompt_content_str \<noteq> '''' then
                    ((if output_parts \<noteq> [] \<and> last output_parts \<noteq> ''''
                          \<and> \<not> isspace (last output_parts)
                          \<and> \<not> endswith (last output_parts) ''\<newline>\<newline>''
                      then (if \<not> endswith (last output_parts) ''\<newline>\<newline>''
                            then output_parts @ [''\<newline>''] else output_parts)
                      else output_parts) @ [prompt_content_str],
                     prompt_content_str, [])
                  else (output_parts, prompt_content_str, []))
             | None \<Rightarrow>
                 (output_parts, '''',
                  [PromptUnreadable
                     (get_display_path fs prompt_file_path_str project_root_dir)]))
          else (output_parts, '''',
                [PromptMissing (get_display_path fs prompt_file_path_str project_root_dir)]))"

text \<open>
  The end of the function: the two "nothing to do" returns, then \<open>"".join(..).strip()\<close>
  and the trailing newline.
\<close>

definition join_parts :: "string list \<Rightarrow> string" where
  "join_parts output_parts =
     (let final_str = strip (concat output_parts)
      in if final_str \<noteq> '''' then final_str @ ''\<newline>'' else final_str)"

definition final_content ::
  "string \<Rightarrow> string \<Rightarrow> string list \<Rightarrow> string \<Rightarrow> string list \<Rightarrow> nat
     \<Rightarrow> message list \<times> content" where
  "final_content actual_scope_name context_content_str file_paths_str_list
       prompt_content_str output_parts files_read_count =
     (let final_str = join_parts output_parts;
          result = ([], (final_str, files_read_count, length final_str, actual_scope_name))
      in if output_parts = [] \<or> list_all isspace output_parts then
           (if context_content_str = '''' \<and> file_paths_str_list = []
                 \<and> prompt_content_str = ''''
            then ([CompletelyEmpty], ('''', 0, 0, actual_scope_name))
            else if \<not> list_ex (\<lambda>p. strip p \<noteq> '''') output_parts
            then ([EffectivelyEmpty], ('''', 0, 0, actual_scope_name))
            else result)
         else result)"

text \<open>
  The body of the function once \<open>scope_data\<close> is found: the spec's
  \<open>assemble(scopeRecord, baseDir)\<close>.
\<close>

definition assemble ::
  "filesystem \<Rightarrow> string \<Rightarrow> string \<Rightarrow> scope \<Rightarrow> message list \<times> (failure + content)" where
  "assemble fs project_root_dir actual_scope_name scope_data =
     (case context_section fs project_root_dir scope_data of
        (context_content_str, msgs1) \<Rightarrow>
          (let output_parts = (if context_content_str \<noteq> '''' then [context_content_str] else []);
               file_paths_str_list = files scope_data;
               tuples = path_tuples_for_sorting fs project_root_dir file_paths_str_list;
               missing = missing_files_display fs tuples;
               to_process = files_to_process_tuples fs tuples
           in if missing \<noteq> [] then (msgs1, Inl (MissingTrackedFiles (sort missing)))
              else
                (case code_section fs file_paths_str_list to_process output_parts of
                   (output_parts2, files_read_count, msgs2) \<Rightarrow>
                     (case prompt_section fs project_root_dir scope_data output_parts2 of
                        (output_parts3, prompt_content_str, msgs3) \<Rightarrow>
                          (case final_content actual_scope_name context_content_str
                                  file_paths_str_list prompt_content_str output_parts3
                                  files_read_count of
                             (msgs4, result) \<Rightarrow>
                               (msgs1 @ msgs2 @ msgs3 @ msgs4, Inr result))))))"

definition get_formatted_scope_content ::
  "filesystem \<Rightarrow> string option \<Rightarrow> config \<Rightarrow> string
     \<Rightarrow> message list \<times> (failure + content)" where
  "get_formatted_scope_content fs requested_scope_name config project_root_dir =
     (let actual_scope_name =
            (case requested_scope_name of
               None \<Rightarrow> get_current_scope_name config
             | Some r \<Rightarrow> if r \<noteq> '''' then Some r else get_current_scope_name config)
      in case actual_scope_name of
           None \<Rightarrow> ([], Inl NoActiveScope)
         | Some name \<Rightarrow>
             if name = '''' then ([], Inl NoActiveScope)
             else (case get_scope_data config name of
                     None \<Rightarrow> ([], Inl (ScopeNotFound name))
                   | Some scope_data \<Rightarrow> assemble fs project_root_dir name scope_data))"

text \<open>
  The text a context or prompt slot contributes to the output: the stripped content of
  its file, and nothing when the slot is unset, the file is missing or the read fails.
  \<open>context_section\<close> and \<open>prompt_section\<close> are shown below to compute it.
\<close>

definition slot_text :: "filesystem \<Rightarrow> string option \<Rightarrow> string" where
  "slot_text fs slot =
     (case slot of
        None \<Rightarrow> ''''
      | Some p \<Rightarrow>
          if p \<noteq> '''' \<and> is_file fs p
          then (case read_text fs p of Some text \<Rightarrow> strip text | None \<Rightarrow> '''')
          else '''')"

section \<open>ScopeOperations: \<open>handle_scope_rename_cmd\<close> and \<open>handle_add_cmd\<close>\<close>

text \<open>
  A handler loads the document, changes it and saves it. The model takes the document
  loaded and returns the document on disk when the handler ends: the value of
  \<open>save_config\<close> when it saves, the document it loaded when it returns without
  saving, or the failure of its \<open>sys.exit(1)\<close>.
\<close>

definition handle_scope_rename_cmd :: "config \<Rightarrow> string \<Rightarrow> string \<Rightarrow> failure + config" where
  "handle_scope_rename_cmd config old new =
     (if get_scope_data config old = None then Inl (OldScopeNotFound old)
      else if \<not> is_valid_scope_name new then Inl (InvalidNewName new)
      else if get_scope_data config new \<noteq> None then Inl (NewNameExists new)
      else if old = new then Inr config
      else
        (let config1 = (config(old := None))(new := config old);
             config2 = (if get_current_scope_name config1 = Some old
                        then config1(CURRENT_SCOPE_KEY \<mapsto> Str new) else config1)
         in Inr (save_config config2)))"

record add_args =
  arg_file_paths :: "string list"
  arg_scope_name :: "string option"
  arg_add_context :: bool
  arg_add_prompt :: bool

text \<open>
  The loop of \<open>handle_add_cmd\<close> over \<open>args.file_paths\<close>: the file list of the
  scope after the loop and \<open>files_added_count\<close>.
\<close>

fun add_code_files :: "filesystem \<Rightarrow> string list \<Rightarrow> string list \<Rightarrow> string list \<times> nat" where
  "add_code_files fs [] scope_files = (scope_files, 0)"
| "add_code_files fs (file_path_str # rest) scope_files =
     (if \<not> is_file fs file_path_str then add_code_files fs rest scope_files
      else
        (let abs_file_path_str = resolve fs file_path_str
         in if abs_file_path_str \<notin> set scope_files then
              (case add_code_files fs rest (scope_files @ [abs_file_path_str]) of
                 (scope_files', files_added_count) \<Rightarrow> (scope_files', Suc files_added_count))
            else add_code_files fs rest scope_files))"

definition handle_add_cmd :: "filesystem \<Rightarrow> add_args \<Rightarrow> config \<Rightarrow> failure + config" where
  "handle_add_cmd fs args config =
     (let target_scope_name =
            (case arg_scope_name args of
               None \<Rightarrow> get_current_scope_name config
             | Some n \<Rightarrow> if n \<noteq> '''' then Some n else get_current_scope_name config)
      in case target_scope_name of
           None \<Rightarrow> Inl NoActiveScope
         | Some target \<Rightarrow>
             if target = '''' then Inl NoActiveScope
             else
               (case (case get_scope_data config target of
                        Some scope_data \<Rightarrow> Inr (config, scope_data)
                      | None \<Rightarrow>
                          if \<not> is_valid_scope_name target then Inl (InvalidTargetScope target)
                          else Inr (config(target \<mapsto> ScopeDict initialize_scope_dict),
                                    initialize_scope_dict)) of
                  Inl e \<Rightarrow> Inl e
                | Inr (config', scope_data) \<Rightarrow>
                    if arg_add_context args then
                      (case arg_file_paths args of
                         [] \<Rightarrow> Inl UsageError
                       | file_to_set # _ \<Rightarrow>
                           if \<not> is_file fs file_to_set then Inl (NotAFile file_to_set)
                           else Inr (save_config (config'(target \<mapsto> ScopeDict
                                  (scope_data\<lparr>context_file := Some (resolve fs file_to_set)\<rparr>)))))
                    else if arg_add_prompt args then
                      (case arg_file_paths args of
                         [] \<Rightarrow> Inl UsageError
                       | file_to_set # _ \<Rightarrow>
                           if \<not> is_file fs file_to_set then Inl (NotAFile file_to_set)
                           else Inr (save_config (config'(target \<mapsto> ScopeDict
                                  (scope_data\<lparr>prompt_file := Some (resolve fs file_to_set)\<rparr>)))))
                    else
                      (case add_code_files fs (arg_file_paths args) (files scope_data) of
                         (scope_files', files_added_count) \<Rightarrow>
                           if files_added_count > 0
                           then Inr (save_config (config'(target \<mapsto> ScopeDict
                                  (scope_data\<lparr>files := scope_files'\<rparr>))))
                           else Inr config)))"

text \<open>
  \<open>handle_init_cmd\<close> on a directory without a document: the document it writes.
\<close>

definition KLYP_CURRENT_VERSION :: string where
  "KLYP_CURRENT_VERSION = ''0.13.0''"

definition handle_init_cmd :: config where
  "handle_init_cmd =
     save_config
       [KLYP_CONFIG_VERSION_KEY \<mapsto> Str KLYP_CURRENT_VERSION,
        CURRENT_SCOPE_KEY \<mapsto> Str ''default'',
        ''default'' \<mapsto> ScopeDict initialize_scope_dict]"

text \<open>\<open>handle_scope_set_cmd\<close> (\<open>klyp use <name>\<close>): sets the pointer, creates the scope if absent.\<close>

definition handle_scope_set_cmd :: "config \<Rightarrow> string \<Rightarrow> failure + config" where
  "handle_scope_set_cmd config name =
     (if \<not> is_valid_scope_name name then Inl (InvalidScopeName name)
      else
        (let config1 = config(CURRENT_SCOPE_KEY \<mapsto> Str name);
             config2 = (if get_scope_data config1 name = None
                        then config1(name \<mapsto> ScopeDict initialize_scope_dict) else config1)
         in Inr (save_config config2)))"

text \<open>
  One \<open>klyp add <file>\<close>, which adds a code file to the active scope: the arguments
  \<open>handle_add_cmd\<close> receives for it.
\<close>

definition add_file_args :: "string \<Rightarrow> add_args" where
  "add_file_args file_path_str =
     \<lparr>arg_file_paths = [file_path_str], arg_scope_name = None,
        arg_add_context = False, arg_add_prompt = False\<rparr>"

text \<open>A command run on the document the previous command left; a failed command ends the run.\<close>

definition and_then :: "failure + config \<Rightarrow> (config \<Rightarrow> failure + config) \<Rightarrow> failure + config" where
  "and_then r cmd = (case r of Inl e \<Rightarrow> Inl e | Inr config \<Rightarrow> cmd config)"


section \<open>A concrete project\<close>

text \<open>
  A project directory \<open>/proj\<close> used to run the definitions: six readable files, one
  regular file whose read raises \<open>IOError\<close>, and nothing else.
\<close>

definition demo_fs :: filesystem where
  "demo_fs =
     \<lparr>is_file = (\<lambda>p. p \<in> set [''/proj/ctx.md'', ''/proj/f.txt'', ''/proj/prompt.md'',
                                ''/proj/empty.txt'', ''/proj/a.txt'', ''/proj/b.txt'',
                                ''/proj/locked.txt'']),
      read_text = map_of [(''/proj/ctx.md'', ''  C\<newline>''), (''/proj/f.txt'', ''X\<newline>''),
                          (''/proj/prompt.md'', ''P''), (''/proj/empty.txt'', '' \<newline>''),
                          (''/proj/a.txt'', ''A''), (''/proj/b.txt'', ''B'')],
      resolve = (\<lambda>p. if is_absolute p then p else ''/proj/'' @ p)\<rparr>"

section \<open>Auxiliary facts\<close>

subsection \<open>Stripping\<close>

lemma dropWhile_hd_id: "xs \<noteq> [] \<Longrightarrow> \<not> P (hd xs) \<Longrightarrow> dropWhile P xs = xs"
  by (cases xs) auto

lemma dropWhile_all_iff: "(\<forall>x\<in>set (dropWhile P xs). P x) \<longleftrightarrow> (\<forall>x\<in>set xs. P x)"
proof
  assume a: "\<forall>x\<in>set (dropWhile P xs). P x"
  have "dropWhile P xs = []"
  proof (rule ccontr)
    assume n: "dropWhile P xs \<noteq> []"
    then have "\<not> P (hd (dropWhile P xs))" by (rule hd_dropWhile)
    moreover have "hd (dropWhile P xs) \<in> set (dropWhile P xs)" using n by simp
    ultimately show False using a by blast
  qed
  then show "\<forall>x\<in>set xs. P x" by (simp add: dropWhile_eq_Nil_conv)
next
  assume "\<forall>x\<in>set xs. P x"
  then show "\<forall>x\<in>set (dropWhile P xs). P x" by (blast dest: set_dropWhileD)
qed

lemma strip_eq_Nil_iff: "strip s = [] \<longleftrightarrow> list_all isspace_char s"
  by (simp add: strip_def list_all_iff dropWhile_eq_Nil_conv dropWhile_all_iff)

lemma strip_id:
  assumes "s \<noteq> []" "\<not> isspace_char (hd s)" "\<not> isspace_char (last s)"
  shows "strip s = s"
proof -
  have 1: "dropWhile isspace_char s = s" using assms by (simp add: dropWhile_hd_id)
  have "rev s \<noteq> []" "hd (rev s) = last s" using assms by (simp_all add: hd_rev)
  then have 2: "dropWhile isspace_char (rev s) = rev s" using assms by (simp add: dropWhile_hd_id)
  show ?thesis by (simp add: strip_def 1 2)
qed

lemma strip_not_space_ends:
  assumes "strip s \<noteq> []"
  shows "\<not> isspace_char (hd (strip s))" "\<not> isspace_char (last (strip s))"
proof -
  let ?d = "dropWhile isspace_char s"
  let ?r = "dropWhile isspace_char (rev ?d)"
  have r: "?r \<noteq> []" using assms by (simp add: strip_def)
  then have hr: "\<not> isspace_char (hd ?r)" by (rule hd_dropWhile)
  have "last (strip s) = hd ?r" using r by (simp add: strip_def last_rev)
  then show "\<not> isspace_char (last (strip s))" using hr by simp
  have d: "?d \<noteq> []"
  proof
    assume e: "?d = []"
    have "?r = []" unfolding e by simp
    with r show False by simp
  qed
  then have hd: "\<not> isspace_char (hd ?d)" by (rule hd_dropWhile)
  have "rev ?d = takeWhile isspace_char (rev ?d) @ ?r" by simp
  then have "?d = rev ?r @ rev (takeWhile isspace_char (rev ?d))"
    by (metis rev_append rev_rev_ident)
  moreover have "rev ?r \<noteq> []" using r by simp
  ultimately have "hd (rev ?r) = hd ?d" by (metis hd_append2)
  then show "\<not> isspace_char (hd (strip s))" using hd by (simp add: strip_def)
qed

lemma strip_strip: "strip (strip s) = strip s"
proof (cases "strip s = []")
  case True
  have "strip [] = []" by (simp add: strip_def)
  with True show ?thesis by simp
next
  case False then show ?thesis using strip_not_space_ends[OF False] by (intro strip_id)
qed

subsection \<open>Sorting by display path\<close>

lemma insort_key_map:
  "insort_key f (g x) (map g xs) = map g (insort_key (\<lambda>x. f (g x)) x xs)"
  by (induction xs) auto

lemma sort_key_map: "sort_key f (map g xs) = map g (sort_key (\<lambda>x. f (g x)) xs)"
  by (induction xs) (auto simp: insort_key_map)

lemma path_tuples_eq:
  "path_tuples_for_sorting fs base fl =
     map (\<lambda>p. (get_display_path fs p base, p)) (sort_key (\<lambda>p. get_display_path fs p base) fl)"
  by (simp add: path_tuples_for_sorting_def sort_key_map)

lemma read_file_blocks_eq:
  "read_file_blocks fs T =
     (map (\<lambda>t. file_block (fst t) (strip (the (read_text fs (snd t)))))
          (filter (\<lambda>t. read_text fs (snd t) \<noteq> None) T),
      length (filter (\<lambda>t. read_text fs (snd t) \<noteq> None) T),
      map (\<lambda>t. FileUnreadable (fst t)) (filter (\<lambda>t. read_text fs (snd t) = None) T))"
  by (induction T) (auto split: option.splits)


lemma sort_cong_mset: "mset xs = mset ys \<Longrightarrow> sort xs = sort ys"
  by (rule properties_for_sort) simp_all

lemma missing_files_display_eq:
  "missing_files_display fs (path_tuples_for_sorting fs base fl) =
     map (\<lambda>p. get_display_path fs p base)
         (filter (\<lambda>p. \<not> is_file fs p) (sort_key (\<lambda>p. get_display_path fs p base) fl))"
  by (simp add: missing_files_display_def path_tuples_eq filter_map comp_def)

lemma files_to_process_eq:
  "files_to_process_tuples fs (path_tuples_for_sorting fs base fl) =
     map (\<lambda>p. (get_display_path fs p base, p))
         (filter (is_file fs) (sort_key (\<lambda>p. get_display_path fs p base) fl))"
  by (simp add: files_to_process_tuples_def path_tuples_eq filter_map comp_def)

subsection \<open>The sections of the assembly\<close>

lemma context_section_text: "fst (context_section fs base sc) = slot_text fs (context_file sc)"
  by (simp add: context_section_def slot_text_def split: option.splits)

lemma prompt_section_text:
  "fst (snd (prompt_section fs base sc parts)) = slot_text fs (prompt_file sc)"
  by (simp add: prompt_section_def slot_text_def Let_def split: option.splits)

lemma prompt_section_msgs:
  "snd (snd (prompt_section fs base sc parts)) = snd (snd (prompt_section fs base sc []))"
  by (simp add: prompt_section_def Let_def split: option.splits)

lemma slot_text_stripped:
  assumes "slot_text fs slot \<noteq> []"
  shows "\<not> isspace_char (hd (slot_text fs slot))" "\<not> isspace_char (last (slot_text fs slot))"
  using assms strip_not_space_ends
  by (auto simp: slot_text_def split: option.splits if_splits)

lemma not_isspace_if_hd: "s \<noteq> [] \<Longrightarrow> \<not> isspace_char (hd s) \<Longrightarrow> \<not> isspace s"
  by (cases s) (auto simp: isspace_def)

lemma slot_text_not_isspace: "slot_text fs slot \<noteq> [] \<Longrightarrow> \<not> isspace (slot_text fs slot)"
  by (simp add: not_isspace_if_hd slot_text_stripped)

lemma prompt_section_parts:
  "fst (prompt_section fs base sc parts) =
     (let q = slot_text fs (prompt_file sc)
      in if q = '''' then parts
         else if parts \<noteq> [] \<and> last parts \<noteq> '''' \<and> \<not> isspace (last parts)
                 \<and> \<not> endswith (last parts) ''\<newline>\<newline>''
         then parts @ [''\<newline>'', q] else parts @ [q])"
  by (simp add: prompt_section_def slot_text_def Let_def split: option.splits)

lemma endswith_append_same: "endswith (xs @ t) t"
  by (simp add: endswith_def)

lemma endswith_file_block: "endswith (file_block d c) ''\<newline>\<newline>''"
proof -
  have "file_block d c = (d @ '':\<newline>```\<newline>'' @ c @ ''\<newline>```'') @ ''\<newline>\<newline>''"
    by (simp add: file_block_def)
  then show ?thesis by (simp only: endswith_append_same)
qed

lemma last_code_parts_endswith:
  "endswith (last (C @ manifest_parts D @ map (\<lambda>p. file_block (f p) (g p)) xs)) ''\<newline>\<newline>''"
proof (cases "xs = []")
  case True
  have "endswith (''```'' @ ''\<newline>\<newline>'') ''\<newline>\<newline>''" by (rule endswith_append_same)
  then show ?thesis using True by (simp add: manifest_parts_def)
next
  case False
  then show ?thesis by (simp add: last_map endswith_file_block)
qed

lemma code_section_eq:
  assumes "T \<noteq> []"
  shows "code_section fs fl T parts =
     (parts
        @ (if parts \<noteq> [] \<and> last parts \<noteq> '''' \<and> \<not> isspace (last parts)
           then [''\<newline>\<newline>''] else [])
        @ manifest_parts (map fst T)
        @ map (\<lambda>t. file_block (fst t) (strip (the (read_text fs (snd t)))))
              (filter (\<lambda>t. read_text fs (snd t) \<noteq> None) T),
      length (filter (\<lambda>t. read_text fs (snd t) \<noteq> None) T),
      map (\<lambda>t. FileUnreadable (fst t)) (filter (\<lambda>t. read_text fs (snd t) = None) T)
        @ (if length (filter (\<lambda>t. read_text fs (snd t) \<noteq> None) T) = 0 \<and> fl \<noteq> []
           then [NoFilesReadable] else []))"
  using assms by (simp add: code_section_def read_file_blocks_eq)

lemma header_not_isspace: "\<not> isspace ''Project Structure:\<newline>```\<newline>''"
  by (simp add: isspace_def isspace_char_def whitespace_chars_def)

lemma manifest_not_all_isspace: "\<not> list_all isspace (A @ manifest_parts D @ B)"
  by (simp add: manifest_parts_def header_not_isspace)

lemma final_content_manifest:
  "final_content name c fl q (A @ manifest_parts D @ B) n =
     ([], (join_parts (A @ manifest_parts D @ B), n,
           length (join_parts (A @ manifest_parts D @ B)), name))"
proof -
  have "A @ manifest_parts D @ B \<noteq> []" by (simp add: manifest_parts_def)
  then show ?thesis
    using manifest_not_all_isspace[of A D B] by (simp add: final_content_def Let_def)
qed

lemma assemble_tracked_exist:
  fixes fs base sc
  defines "dp \<equiv> \<lambda>p. get_display_path fs p base"
  defines "S \<equiv> sort_key dp (files sc)"
  defines "c \<equiv> slot_text fs (context_file sc)"
  defines "q \<equiv> slot_text fs (prompt_file sc)"
  defines "parts \<equiv>
     (if c \<noteq> '''' then [c, ''\<newline>\<newline>''] else [])
       @ manifest_parts (map dp S)
       @ map (\<lambda>p. file_block (dp p) (strip (the (read_text fs p))))
             (filter (\<lambda>p. read_text fs p \<noteq> None) S)
       @ (if q \<noteq> '''' then [q] else [])"
  assumes ex: "\<forall>p\<in>set (files sc). is_file fs p" and ne: "files sc \<noteq> []"
  shows "assemble fs base name sc =
     (snd (context_section fs base sc)
        @ map (\<lambda>p. FileUnreadable (dp p)) (filter (\<lambda>p. read_text fs p = None) S)
        @ (if filter (\<lambda>p. read_text fs p \<noteq> None) S = [] then [NoFilesReadable] else [])
        @ snd (snd (prompt_section fs base sc [])),
      Inr (join_parts parts, length (filter (\<lambda>p. read_text fs p \<noteq> None) S),
           length (join_parts parts), name))"
proof -
  let ?g = "\<lambda>p. (dp p, p)"
  let ?T = "path_tuples_for_sorting fs base (files sc)"
  let ?rd = "\<lambda>p. read_text fs p \<noteq> None"
  let ?B = "map (\<lambda>p. file_block (dp p) (strip (the (read_text fs p)))) (filter ?rd S)"
  let ?A = "if c \<noteq> '''' then [c, ''\<newline>\<newline>''] else []"
  have allS: "\<forall>p\<in>set S. is_file fs p" using ex by (simp add: S_def)
  have fS: "filter (is_file fs) S = S" "filter (\<lambda>p. \<not> is_file fs p) S = []"
    using allS by (simp_all add: filter_empty_conv)
  have miss: "missing_files_display fs ?T = []"
    using fS by (simp add: missing_files_display_eq dp_def S_def)
  have proc: "files_to_process_tuples fs ?T = map ?g S"
    using fS by (simp add: files_to_process_eq dp_def S_def)
  have Sne: "S \<noteq> []" using ne by (metis S_def length_sort length_0_conv)
  have ctx: "context_section fs base sc = (c, snd (context_section fs base sc))"
    by (metis context_section_text c_def prod.collapse)
  have sep: "(if c \<noteq> '''' then [c] else [])
               @ (if (if c \<noteq> '''' then [c] else []) \<noteq> []
                     \<and> last (if c \<noteq> '''' then [c] else []) \<noteq> ''''
                     \<and> \<not> isspace (last (if c \<noteq> '''' then [c] else []))
                  then [''\<newline>\<newline>''] else []) = ?A"
    using slot_text_not_isspace[of fs "context_file sc"] by (simp add: c_def)
  have code: "code_section fs (files sc) (map ?g S) (if c \<noteq> '''' then [c] else []) =
     (?A @ manifest_parts (map dp S) @ ?B, length (filter ?rd S),
      map (\<lambda>p. FileUnreadable (dp p)) (filter (\<lambda>p. read_text fs p = None) S)
        @ (if filter ?rd S = [] then [NoFilesReadable] else []))"
    using Sne ne sep
    by (simp add: code_section_eq filter_map comp_def del: append_assoc)
  let ?P2 = "?A @ manifest_parts (map dp S) @ ?B"
  have e2: "endswith (last ?P2) ''\<newline>\<newline>''"
    by (rule last_code_parts_endswith)
  have pp: "fst (prompt_section fs base sc ?P2) = ?P2 @ (if q \<noteq> '''' then [q] else [])"
    using e2 by (simp add: prompt_section_parts q_def Let_def)
  have pr: "prompt_section fs base sc ?P2 =
              (?P2 @ (if q \<noteq> [] then [q] else []), q, snd (snd (prompt_section fs base sc [])))"
    by (simp only: prod_eq_iff fst_conv snd_conv pp prompt_section_text q_def
          prompt_section_msgs[of fs base sc "?P2"] simp_thms)
  have parts_eq: "?P2 @ (if q \<noteq> '''' then [q] else []) = parts"
    by (simp add: parts_def)
  have fin: "final_content name c (files sc) q parts (length (filter ?rd S)) =
      ([], (join_parts parts, length (filter ?rd S), length (join_parts parts), name))"
    unfolding parts_def
    using final_content_manifest[of name c "files sc" q ?A "map dp S"
             "?B @ (if q \<noteq> '''' then [q] else [])" "length (filter ?rd S)"]
    by simp
  have m: "missing_files_display fs ?T \<noteq> [] \<longleftrightarrow> False" by (simp add: miss)
  show ?thesis
    unfolding assemble_def
    apply (subst ctx)
    apply (simp only: prod.case Let_def m if_False proc)
    apply (simp only: code prod.case)
    apply (simp only: pr prod.case parts_eq)
    apply (simp only: fin prod.case append_Nil2 append_assoc)
    done
qed

lemma endswith_last:
  assumes "endswith s ''\<newline>\<newline>''"
  shows "s \<noteq> [] \<and> last s = CHR 0x0A"
proof -
  from assms have l: "2 \<le> length s" and d: "drop (length s - 2) s = ''\<newline>\<newline>''"
    by (simp_all add: endswith_def numeral_2_eq_2)
  from l have ne: "s \<noteq> []" by auto
  from l have "length s - 2 < length s" by simp
  then have "last (drop (length s - 2) s) = last s" by (rule last_drop)
  with d have "last s = CHR 0x0A" by simp
  with ne show ?thesis by simp
qed

lemma slot_text_not_endswith:
  "slot_text fs slot \<noteq> [] \<Longrightarrow> \<not> endswith (slot_text fs slot) ''\<newline>\<newline>''"
proof
  assume n: "slot_text fs slot \<noteq> []" and e: "endswith (slot_text fs slot) ''\<newline>\<newline>''"
  from e have "last (slot_text fs slot) = CHR 0x0A" by (simp add: endswith_last)
  moreover have "isspace_char (CHR 0x0A)" by (simp add: isspace_char_def whitespace_chars_def)
  ultimately show False using slot_text_stripped(2)[OF n] by simp
qed

lemma join_parts_stripped:
  assumes "s \<noteq> []" "\<not> isspace_char (hd s)" "\<not> isspace_char (last s)" "concat parts = s"
  shows "join_parts parts = s @ ''\<newline>''"
  using assms strip_id[of s] by (simp add: join_parts_def Let_def)

lemma assemble_no_files:
  fixes fs base sc
  defines "c \<equiv> slot_text fs (context_file sc)"
  defines "q \<equiv> slot_text fs (prompt_file sc)"
  defines "t \<equiv> (if c = '''' then q else if q = '''' then c else c @ ''\<newline>'' @ q) @ ''\<newline>''"
  assumes nf: "files sc = []"
  shows "assemble fs base name sc =
     (snd (context_section fs base sc) @ snd (snd (prompt_section fs base sc []))
        @ (if c = '''' \<and> q = '''' then [CompletelyEmpty] else []),
      Inr (if c = '''' \<and> q = '''' then ('''', 0, 0, name) else (t, 0, length t, name)))"
proof -
  let ?P1 = "if c \<noteq> '''' then [c] else []"
  let ?P3 = "if q = '''' then ?P1 else if c \<noteq> '''' then [c, ''\<newline>'', q] else [q]"
  have ctx: "context_section fs base sc = (c, snd (context_section fs base sc))"
    by (metis context_section_text c_def prod.collapse)
  have tup: "path_tuples_for_sorting fs base (files sc) = []"
    by (simp add: nf path_tuples_for_sorting_def)
  have miss: "missing_files_display fs [] \<noteq> [] \<longleftrightarrow> False"
    by (simp add: missing_files_display_def)
  have proc: "files_to_process_tuples fs [] = []"
    by (simp add: files_to_process_tuples_def)
  have code: "code_section fs (files sc) [] ?P1 = (?P1, 0, [])"
    by (simp add: code_section_def)
  have pp: "fst (prompt_section fs base sc ?P1) = ?P3"
    using slot_text_not_isspace[of fs "context_file sc"]
          slot_text_not_endswith[of fs "context_file sc"]
    by (simp add: prompt_section_parts q_def c_def Let_def)
  have pr: "prompt_section fs base sc ?P1 = (?P3, q, snd (snd (prompt_section fs base sc [])))"
    by (simp only: prod_eq_iff fst_conv snd_conv pp prompt_section_text q_def
          prompt_section_msgs[of fs base sc "?P1"] simp_thms)
  have fin: "final_content name c (files sc) q ?P3 0 =
      (if c = '''' \<and> q = '''' then ([CompletelyEmpty], ('''', 0, 0, name))
       else ([], (t, 0, length t, name)))"
  proof (cases "c = ''''")
    case cT: True
    show ?thesis
    proof (cases "q = ''''")
      case True
      with cT show ?thesis by (simp add: final_content_def nf)
    next
      case False
      then have q1: "\<not> isspace_char (hd q)" "\<not> isspace_char (last q)" "\<not> isspace q"
        using slot_text_stripped[of fs "prompt_file sc"] slot_text_not_isspace[of fs "prompt_file sc"]
        by (simp_all add: q_def)
      have "join_parts [q] = q @ ''\<newline>''"
        using False q1 by (intro join_parts_stripped) simp_all
      with cT False q1 show ?thesis by (simp add: final_content_def t_def Let_def)
    qed
  next
    case cF: False
    then have c1: "\<not> isspace_char (hd c)" "\<not> isspace_char (last c)" "\<not> isspace c"
      using slot_text_stripped[of fs "context_file sc"] slot_text_not_isspace[of fs "context_file sc"]
      by (simp_all add: c_def)
    show ?thesis
    proof (cases "q = ''''")
      case True
      have "join_parts [c] = c @ ''\<newline>''"
        using cF c1 by (intro join_parts_stripped) simp_all
      with cF True c1 show ?thesis by (simp add: final_content_def t_def Let_def)
    next
      case False
      then have q1: "\<not> isspace_char (hd q)" "\<not> isspace_char (last q)"
        using slot_text_stripped[of fs "prompt_file sc"] by (simp_all add: q_def)
      have "join_parts [c, ''\<newline>'', q] = (c @ ''\<newline>'' @ q) @ ''\<newline>''"
        using cF c1 False q1 by (intro join_parts_stripped) simp_all
      with cF False c1 show ?thesis by (simp add: final_content_def t_def Let_def)
    qed
  qed
  show ?thesis
    unfolding assemble_def
    apply (subst ctx)
    apply (simp only: prod.case Let_def tup miss if_False proc)
    apply (simp only: code prod.case)
    apply (simp only: pr prod.case)
    apply (simp only: fin)
    apply (simp split: if_splits)
    done
qed

lemma assemble_missing:
  assumes "\<exists>p\<in>set (files sc). \<not> is_file fs p"
  shows "assemble fs base name sc =
           (snd (context_section fs base sc),
            Inl (MissingTrackedFiles
                  (sort (map (\<lambda>p. get_display_path fs p base)
                             (filter (\<lambda>p. \<not> is_file fs p) (files sc))))))"
proof -
  let ?dp = "\<lambda>p. get_display_path fs p base"
  let ?m = "missing_files_display fs (path_tuples_for_sorting fs base (files sc))"
  have "filter (\<lambda>p. \<not> is_file fs p) (sort_key ?dp (files sc)) \<noteq> []"
    using assms by (simp add: filter_empty_conv)
  then have ne: "?m \<noteq> []" by (simp add: missing_files_display_eq)
  have "mset ?m = mset (map ?dp (filter (\<lambda>p. \<not> is_file fs p) (files sc)))"
    by (simp add: missing_files_display_eq)
  then have "sort ?m = sort (map ?dp (filter (\<lambda>p. \<not> is_file fs p) (files sc)))"
    by (rule sort_cong_mset)
  with ne show ?thesis
    by (simp add: assemble_def Let_def split: prod.splits)
qed

lemma length_filter_sort_key: "length (filter P (sort_key f xs)) = length (filter P xs)"
  by (metis mset_filter mset_sort size_mset)

lemma context_section_cong:
  "context_file sc' = context_file sc \<Longrightarrow> context_section fs base sc' = context_section fs base sc"
  by (simp add: context_section_def)

lemma prompt_section_cong:
  "prompt_file sc' = prompt_file sc \<Longrightarrow> prompt_section fs base sc' parts = prompt_section fs base sc parts"
  by (simp add: prompt_section_def)

subsection \<open>Independence of the stored order\<close>

lemma map_filter_obs:
  "map g (filter P (map k xs)) = map (\<lambda>x. g (k x)) (filter (\<lambda>x. P (k x)) xs)"
  by (induction xs) auto

lemma sorted_obs_perm:
  fixes dp :: "string \<Rightarrow> string" and rd :: "string \<Rightarrow> 'b"
  assumes m: "mset fl' = mset fl"
    and tie: "\<forall>a\<in>set fl. \<forall>b\<in>set fl. dp a = dp b \<longrightarrow> rd a = rd b"
  shows "map (\<lambda>p. (dp p, rd p)) (sort_key dp fl') = map (\<lambda>p. (dp p, rd p)) (sort_key dp fl)"
proof -
  let ?k = "\<lambda>p. (dp p, rd p)"
  have "sort_key fst (map ?k fl') = sort_key fst (map ?k fl)"
  proof (rule sort_key_inj_key_eq)
    show "mset (map ?k fl') = mset (sort_key fst (map ?k fl))" using m by simp
    have s: "set fl' = set fl" using m by (rule mset_eq_setD)
    show "inj_on fst (set (map ?k fl'))"
    proof (rule inj_onI)
      fix x y
      assume x: "x \<in> set (map ?k fl')" and y: "y \<in> set (map ?k fl')" and e: "fst x = fst y"
      from x s obtain a where a: "a \<in> set fl" "x = ?k a" by auto
      from y s obtain b where b: "b \<in> set fl" "y = ?k b" by auto
      from e a b have d: "dp a = dp b" by simp
      with tie a b have "rd a = rd b" by blast
      with d a b show "x = y" by simp
    qed
    show "sorted (map fst (sort_key fst (map ?k fl)))" by simp
  qed
  then show ?thesis by (simp add: sort_key_map)
qed

lemma sorted_obs_perm_apply:
  fixes dp :: "string \<Rightarrow> string" and rd :: "string \<Rightarrow> 'b"
  assumes m: "mset fl' = mset fl"
    and tie: "\<forall>a\<in>set fl. \<forall>b\<in>set fl. dp a = dp b \<longrightarrow> rd a = rd b"
  shows "map (\<lambda>p. g (dp p) (rd p)) (filter (\<lambda>p. P (rd p)) (sort_key dp fl'))
         = map (\<lambda>p. g (dp p) (rd p)) (filter (\<lambda>p. P (rd p)) (sort_key dp fl))"
proof -
  have "map (\<lambda>t. g (fst t) (snd t)) (filter (\<lambda>t. P (snd t)) (map (\<lambda>p. (dp p, rd p)) (sort_key dp fl')))
      = map (\<lambda>t. g (fst t) (snd t)) (filter (\<lambda>t. P (snd t)) (map (\<lambda>p. (dp p, rd p)) (sort_key dp fl)))"
    by (simp only: sorted_obs_perm[OF m tie])
  then show ?thesis by (simp add: map_filter_obs)
qed

lemma assemble_perm:
  assumes ex: "\<forall>p\<in>set (files sc). is_file fs p" and ne: "files sc \<noteq> []"
    and m: "mset fl' = mset (files sc)"
    and tie: "\<forall>a\<in>set (files sc). \<forall>b\<in>set (files sc).
                get_display_path fs a base = get_display_path fs b base
                  \<longrightarrow> read_text fs a = read_text fs b"
  shows "assemble fs base name (sc\<lparr>files := fl'\<rparr>) = assemble fs base name sc"
proof -
  let ?dp = "\<lambda>p. get_display_path fs p base"
  let ?sc' = "sc\<lparr>files := fl'\<rparr>"
  have s: "set fl' = set (files sc)" using m by (rule mset_eq_setD)
  have ex': "\<forall>p\<in>set (files ?sc'). is_file fs p" using ex s by simp
  have ne': "files ?sc' \<noteq> []" using ne m by auto
  have d: "map ?dp (sort_key ?dp fl') = map ?dp (sort_key ?dp (files sc))"
    using sorted_obs_perm_apply[OF m tie, of "\<lambda>d r. d" "\<lambda>r. True"] by simp
  have b: "map (\<lambda>p. file_block (?dp p) (strip (the (read_text fs p))))
               (filter (\<lambda>p. read_text fs p \<noteq> None) (sort_key ?dp fl'))
         = map (\<lambda>p. file_block (?dp p) (strip (the (read_text fs p))))
               (filter (\<lambda>p. read_text fs p \<noteq> None) (sort_key ?dp (files sc)))"
    by (rule sorted_obs_perm_apply[OF m tie, of "\<lambda>d r. file_block d (strip (the r))" "\<lambda>r. r \<noteq> None"])
  have u: "map (\<lambda>p. FileUnreadable (?dp p)) (filter (\<lambda>p. read_text fs p = None) (sort_key ?dp fl'))
         = map (\<lambda>p. FileUnreadable (?dp p)) (filter (\<lambda>p. read_text fs p = None) (sort_key ?dp (files sc)))"
    by (rule sorted_obs_perm_apply[OF m tie, of "\<lambda>d r. FileUnreadable d" "\<lambda>r. r = None"])
  have l: "filter (\<lambda>p. read_text fs p \<noteq> None) (sort_key ?dp fl') = []
           \<longleftrightarrow> filter (\<lambda>p. read_text fs p \<noteq> None) (sort_key ?dp (files sc)) = []"
    using s by (simp add: filter_empty_conv)
  have n: "length (filter (\<lambda>p. read_text fs p \<noteq> None) (sort_key ?dp fl'))
           = length (filter (\<lambda>p. read_text fs p \<noteq> None) (sort_key ?dp (files sc)))"
  proof -
    have "length (filter (\<lambda>p. read_text fs p \<noteq> None) fl')
          = length (filter (\<lambda>p. read_text fs p \<noteq> None) (files sc))"
      using m by (metis mset_filter size_mset)
    then show ?thesis by (simp only: length_filter_sort_key)
  qed
  have c: "context_section fs base ?sc' = context_section fs base sc"
    by (rule context_section_cong) simp
  have p: "prompt_section fs base ?sc' [] = prompt_section fs base sc []"
    by (rule prompt_section_cong) simp
  show ?thesis
  proof -
    have f: "files ?sc' = fl'" "context_file ?sc' = context_file sc"
            "prompt_file ?sc' = prompt_file sc" by simp_all
    show ?thesis
      unfolding assemble_tracked_exist[OF ex' ne'] assemble_tracked_exist[OF ex ne]
      by (simp only: f d b u l n c p)
  qed
qed

subsection \<open>A slot whose file is missing\<close>

lemma context_section_missing:
  assumes "context_file sc = Some p" "p \<noteq> ''''" "\<not> is_file fs p"
  shows "context_section fs base sc = ('''', [ContextMissing (get_display_path fs p base)])"
  using assms by (simp add: context_section_def)

lemma context_section_unset:
  "context_file sc = None \<Longrightarrow> context_section fs base sc = ('''', [])"
  by (simp add: context_section_def)

lemma prompt_section_missing:
  assumes "prompt_file sc = Some p" "p \<noteq> ''''" "\<not> is_file fs p"
  shows "prompt_section fs base sc parts = (parts, '''', [PromptMissing (get_display_path fs p base)])"
  using assms by (simp add: prompt_section_def)

lemma prompt_section_unset:
  "prompt_file sc = None \<Longrightarrow> prompt_section fs base sc parts = (parts, '''', [])"
  by (simp add: prompt_section_def)

lemma slot_text_missing: "p \<noteq> '''' \<Longrightarrow> \<not> is_file fs p \<Longrightarrow> slot_text fs (Some p) = ''''"
  by (simp add: slot_text_def)

lemma slot_text_None: "slot_text fs None = ''''"
  by (simp add: slot_text_def)

lemma assemble_cases:
  obtains (missing) "\<exists>p\<in>set (files sc). \<not> is_file fs p"
        | (tracked) "\<forall>p\<in>set (files sc). is_file fs p" "files sc \<noteq> []"
        | (nofiles) "files sc = []"
  by (cases "files sc = []") auto

lemma assemble_missing_context:
  assumes c: "context_file sc = Some p" "p \<noteq> ''''" "\<not> is_file fs p"
  shows "assemble fs base name sc =
           (ContextMissing (get_display_path fs p base)
              # fst (assemble fs base name (sc\<lparr>context_file := None\<rparr>)),
            snd (assemble fs base name (sc\<lparr>context_file := None\<rparr>)))"
proof -
  let ?sc' = "sc\<lparr>context_file := None\<rparr>"
  have f: "files ?sc' = files sc" "prompt_file ?sc' = prompt_file sc" "context_file ?sc' = None"
    by simp_all
  have c1: "context_section fs base sc = ('''', [ContextMissing (get_display_path fs p base)])"
    using c by (rule context_section_missing)
  have c2: "context_section fs base ?sc' = ('''', [])"
    by (rule context_section_unset) simp
  have t: "slot_text fs (context_file sc) = ''''" using c by (simp add: slot_text_missing)
  have p: "prompt_section fs base ?sc' [] = prompt_section fs base sc []"
    by (rule prompt_section_cong) simp
  show ?thesis
  proof (cases sc fs rule: assemble_cases)
    case missing
    then have m': "\<exists>p\<in>set (files ?sc'). \<not> is_file fs p" by simp
    show ?thesis
      unfolding assemble_missing[OF missing] assemble_missing[OF m']
      by (simp only: f c1 c2 fst_conv snd_conv append_Nil list.simps)
  next
    case tracked
    then have e': "\<forall>p\<in>set (files ?sc'). is_file fs p" and n': "files ?sc' \<noteq> []" by simp_all
    show ?thesis
      unfolding assemble_tracked_exist[OF tracked] assemble_tracked_exist[OF e' n']
      by (simp only: f c1 c2 t p slot_text_None fst_conv snd_conv append_Nil append_Cons)
  next
    case nofiles
    then have n': "files ?sc' = []" by simp
    show ?thesis
      unfolding assemble_no_files[OF nofiles] assemble_no_files[OF n']
      by (simp only: f c1 c2 t p slot_text_None fst_conv snd_conv append_Nil append_Cons)
  qed
qed

lemma assemble_missing_prompt:
  assumes c: "prompt_file sc = Some p" "p \<noteq> ''''" "\<not> is_file fs p"
  shows "snd (assemble fs base name sc) = snd (assemble fs base name (sc\<lparr>prompt_file := None\<rparr>))"
    and "\<forall>f\<in>set (files sc). is_file fs f \<Longrightarrow>
           PromptMissing (get_display_path fs p base) \<in> set (fst (assemble fs base name sc))"
proof -
  let ?sc' = "sc\<lparr>prompt_file := None\<rparr>"
  have f: "files ?sc' = files sc" "context_file ?sc' = context_file sc" "prompt_file ?sc' = None"
    by simp_all
  have p1: "prompt_section fs base sc [] = ([], '''', [PromptMissing (get_display_path fs p base)])"
    using c by (rule prompt_section_missing)
  have t: "slot_text fs (prompt_file sc) = ''''" using c by (simp add: slot_text_missing)
  have cs: "context_section fs base ?sc' = context_section fs base sc"
    by (rule context_section_cong) simp
  show "snd (assemble fs base name sc) = snd (assemble fs base name ?sc')"
  proof (cases sc fs rule: assemble_cases)
    case missing
    then have m': "\<exists>p\<in>set (files ?sc'). \<not> is_file fs p" by simp
    show ?thesis
      unfolding assemble_missing[OF missing] assemble_missing[OF m']
      by (simp only: f snd_conv)
  next
    case tracked
    then have e': "\<forall>p\<in>set (files ?sc'). is_file fs p" and n': "files ?sc' \<noteq> []" by simp_all
    show ?thesis
      unfolding assemble_tracked_exist[OF tracked] assemble_tracked_exist[OF e' n']
      by (simp only: f t slot_text_None snd_conv)
  next
    case nofiles
    then have n': "files ?sc' = []" by simp
    show ?thesis
      unfolding assemble_no_files[OF nofiles] assemble_no_files[OF n']
      by (simp only: f t slot_text_None snd_conv)
  qed
  show "PromptMissing (get_display_path fs p base) \<in> set (fst (assemble fs base name sc))"
    if ex: "\<forall>f\<in>set (files sc). is_file fs f"
  proof (cases "files sc = []")
    case True
    show ?thesis unfolding assemble_no_files[OF True] by (simp add: p1)
  next
    case False
    show ?thesis unfolding assemble_tracked_exist[OF ex False] by (simp add: p1)
  qed
qed

lemma assemble_succeeds:
  assumes ex: "\<forall>f\<in>set (files sc). is_file fs f"
  shows "\<exists>text n. snd (assemble fs base name sc) = Inr (text, n, length text, name)"
proof (cases "files sc = []")
  case True
  show ?thesis unfolding assemble_no_files[OF True] by (simp split: if_splits) 
next
  case False
  show ?thesis unfolding assemble_tracked_exist[OF ex False] by simp
qed

subsection \<open>Display paths of files in the base directory\<close>

lemma split_sep_ne: "split_sep s \<noteq> []"
  by (induction s) (auto split: list.splits)

lemma split_sep_append_sep: "split_sep (xs @ CHR ''/'' # ys) = split_sep xs @ split_sep ys"
proof (induction xs)
  case Nil
  show ?case by simp
next
  case (Cons c xs)
  obtain w ws where w: "split_sep xs = w # ws" using split_sep_ne[of xs] by (cases "split_sep xs") auto
  show ?case using Cons w by simp
qed

lemma split_sep_no_sep: "CHR ''/'' \<notin> set s \<Longrightarrow> split_sep s = [s]"
  by (induction s) auto

lemma norm_comps_append:
  "norm_comps i acc (xs @ ys) = norm_comps i (norm_comps i acc xs) ys"
  by (induction xs arbitrary: acc) auto

lemma commonprefix_append: "commonprefix xs (xs @ ys) = xs"
  by (induction xs) auto

lemma abs_comps_child:
  assumes "CHR ''/'' \<notin> set n" "n \<noteq> ''''" "n \<noteq> ''.''" "n \<noteq> ''..''"
  shows "abs_comps (base @ CHR ''/'' # n) = abs_comps base @ [n]"
proof -
  have "split_sep (base @ CHR ''/'' # n) = split_sep base @ [n]"
    using assms(1) by (simp add: split_sep_append_sep split_sep_no_sep)
  then show ?thesis using assms by (simp add: abs_comps_def norm_comps_append)
qed

lemma relpath_child:
  assumes "CHR ''/'' \<notin> set n" "n \<noteq> ''''" "n \<noteq> ''.''" "n \<noteq> ''..''"
  shows "relpath (base @ CHR ''/'' # n) base = n"
  using assms by (simp add: relpath_def abs_comps_child commonprefix_append Let_def)

lemma startswith_set: "startswith s t \<Longrightarrow> set t \<subseteq> set s"
  by (metis startswith_def set_take_subset)

lemma as_posix_name:
  assumes "CHR ''/'' \<notin> set n" "n \<noteq> ''''" "n \<noteq> ''.''"
  shows "as_posix n = n"
proof -
  have "\<not> is_absolute n" using assms(1) startswith_set[of n "''/''"] by (auto simp: is_absolute_def)
  then show ?thesis using assms by (simp add: as_posix_def split_sep_no_sep)
qed

lemma not_startswith_sep:
  assumes "CHR ''/'' \<notin> set n"
  shows "\<not> startswith n ''../''" "\<not> startswith n ''./''" "\<not> is_absolute n"
  using assms startswith_set[of n "''../''"] startswith_set[of n "''./''"] startswith_set[of n "''/''"]
  by (auto simp: is_absolute_def)

lemma display_path_child:
  assumes b: "is_absolute base"
    and n: "CHR ''/'' \<notin> set n" "n \<noteq> ''''" "n \<noteq> ''.''" "n \<noteq> ''..''"
  shows "get_display_path fs (base @ CHR ''/'' # n) base = ''./'' @ n"
proof -
  have "is_absolute (base @ CHR ''/'' # n)"
    using b by (cases base) (auto simp: is_absolute_def startswith_def)
  then show ?thesis
    using n not_startswith_sep[OF n(1)]
    by (simp add: get_display_path_def relpath_child as_posix_name Let_def)
qed

subsection \<open>Slots that are read\<close>

lemma slot_text_read:
  assumes "p \<noteq> ''''" "is_file fs p" "read_text fs p = Some t"
  shows "slot_text fs (Some p) = strip t"
  using assms by (simp add: slot_text_def)

lemma context_section_read:
  assumes "context_file sc = Some p" "p \<noteq> ''''" "is_file fs p" "read_text fs p = Some t"
  shows "snd (context_section fs base sc) = []"
  using assms by (simp add: context_section_def)

lemma prompt_section_read:
  assumes "prompt_file sc = Some p" "p \<noteq> ''''" "is_file fs p" "read_text fs p = Some t"
  shows "snd (snd (prompt_section fs base sc parts)) = []"
  using assms by (simp add: prompt_section_def Let_def)

lemma join_parts_manifest_ne: "join_parts (A @ manifest_parts D @ B) \<noteq> []"
proof -
  have "CHR ''P'' \<in> set (concat (A @ manifest_parts D @ B))"
    by (simp add: manifest_parts_def)
  moreover have "\<not> isspace_char (CHR ''P'')"
    by (simp add: isspace_char_def whitespace_chars_def)
  ultimately have "\<not> list_all isspace_char (concat (A @ manifest_parts D @ B))"
    unfolding list_all_iff by blast
  then have "strip (concat (A @ manifest_parts D @ B)) \<noteq> []"
    by (simp only: strip_eq_Nil_iff not_False_eq_True)
  then show ?thesis by (simp add: join_parts_def Let_def)
qed

subsection \<open>The configuration document\<close>

lemma valid_not_empty: "is_valid_scope_name n \<Longrightarrow> n \<noteq> ''''"
  by (auto simp: is_valid_scope_name_def)

lemma valid_not_current: "is_valid_scope_name n \<Longrightarrow> n \<noteq> CURRENT_SCOPE_KEY"
  by (auto simp: is_valid_scope_name_def RESERVED_KLYP_KEYS_def split: if_splits)

lemma get_scope_data_Some_iff:
  "get_scope_data c n = Some sc \<longleftrightarrow> is_valid_scope_name n \<and> c n = Some (ScopeDict sc)"
  using valid_not_empty[of n]
  by (auto simp: get_scope_data_def split: option.splits entry.splits)

lemma get_scope_data_None_iff:
  "get_scope_data c n = None \<longleftrightarrow> \<not> is_valid_scope_name n \<or> (\<forall>sc. c n \<noteq> Some (ScopeDict sc))"
  using get_scope_data_Some_iff[of c n] by (cases "get_scope_data c n") auto

lemma get_current_scope_name_save:
  "get_current_scope_name (save_config c) = get_current_scope_name c"
  by (auto simp: get_current_scope_name_def save_config_def save_entry_def
           split: option.splits entry.splits)

lemma get_current_scope_name_upd:
  "k \<noteq> CURRENT_SCOPE_KEY \<Longrightarrow> get_current_scope_name (c(k := v)) = get_current_scope_name c"
  by (simp add: get_current_scope_name_def)

lemma get_current_scope_name_set:
  "get_current_scope_name (c(CURRENT_SCOPE_KEY \<mapsto> Str n)) = Some n"
  by (simp add: get_current_scope_name_def)

lemma save_config_scope:
  "c k = Some (ScopeDict sc) \<Longrightarrow>
     save_config c k =
       Some (ScopeDict (if \<not> startswith k ''_klyp_''
                        then sc\<lparr>files := sort (remdups (files sc))\<rparr> else sc))"
  by (simp add: save_config_def save_entry_def)

lemma save_config_None: "c k = None \<Longrightarrow> save_config c k = None"
  by (simp add: save_config_def)

lemma get_scope_data_save:
  "get_scope_data (save_config c) n =
     map_option (\<lambda>sc. if \<not> startswith n ''_klyp_''
                        then sc\<lparr>files := sort (remdups (files sc))\<rparr> else sc)
                (get_scope_data c n)"
  by (auto simp: get_scope_data_def save_config_def save_entry_def
           split: option.splits entry.splits)

lemma rename_result:
  assumes a: "get_scope_data config old = Some r"
    and v: "is_valid_scope_name new"
    and n: "get_scope_data config new = None"
  shows "handle_scope_rename_cmd config old new =
           Inr (save_config
                  (if get_current_scope_name config = Some old
                   then (config(old := None, new \<mapsto> ScopeDict r))(CURRENT_SCOPE_KEY \<mapsto> Str new)
                   else config(old := None, new \<mapsto> ScopeDict r)))"
proof -
  have ne: "old \<noteq> new" using a n by auto
  have co: "config old = Some (ScopeDict r)" using a by (simp add: get_scope_data_Some_iff)
  have vo: "is_valid_scope_name old" using a by (simp add: get_scope_data_Some_iff)
  have p: "get_current_scope_name (config(old := None, new \<mapsto> ScopeDict r))
           = get_current_scope_name config"
    using valid_not_current[OF v] valid_not_current[OF vo]
    by (simp add: get_current_scope_name_upd)
  show ?thesis
    using a v n ne
    by (simp add: handle_scope_rename_cmd_def Let_def p co)
qed

subsection \<open>Adding one code file\<close>

lemma count_list_distinct: "distinct xs \<Longrightarrow> x \<in> set xs \<Longrightarrow> count_list xs x = 1"
  by (induction xs) (auto simp: count_list_0_iff)

lemma count_list_snoc_new: "x \<notin> set xs \<Longrightarrow> count_list (xs @ [x]) x = 1"
  by (induction xs) auto

lemma count_list_member_le_1: "x \<in> set xs \<Longrightarrow> count_list xs x \<le> 1 \<Longrightarrow> count_list xs x = 1"
  using count_list_0_iff[of xs x] by (cases "count_list xs x") auto

lemma add_code_files_single:
  "add_code_files fs [f] fl =
     (if \<not> is_file fs f \<or> resolve fs f \<in> set fl then (fl, 0) else (fl @ [resolve fs f], Suc 0))"
  by (simp add: Let_def)

lemma handle_add_single:
  assumes tgt: "arg_scope_name args = Some t
                \<or> arg_scope_name args = None \<and> get_current_scope_name config = Some t"
    and v: "is_valid_scope_name t"
    and a: "arg_file_paths args = [f]" "\<not> arg_add_context args" "\<not> arg_add_prompt args"
    and isf: "is_file fs f"
  shows "handle_add_cmd fs args config =
     (if resolve fs f \<in> set (files (case get_scope_data config t of
                                        Some sc \<Rightarrow> sc | None \<Rightarrow> initialize_scope_dict))
      then Inr config
      else Inr (save_config (config(t \<mapsto> ScopeDict
                 ((case get_scope_data config t of Some sc \<Rightarrow> sc | None \<Rightarrow> initialize_scope_dict)
                    \<lparr>files := files (case get_scope_data config t of
                                         Some sc \<Rightarrow> sc | None \<Rightarrow> initialize_scope_dict)
                               @ [resolve fs f]\<rparr>)))))"
proof -
  have ne: "t \<noteq> ''''" using v by (rule valid_not_empty)
  have target: "(case arg_scope_name args of
                   None \<Rightarrow> get_current_scope_name config
                 | Some n \<Rightarrow> if n \<noteq> '''' then Some n else get_current_scope_name config) = Some t"
    using tgt ne by auto
  show ?thesis
  proof (cases "get_scope_data config t")
    case None
    then show ?thesis
      using v ne a isf
      by (simp add: handle_add_cmd_def target Let_def add_code_files_single initialize_scope_dict_def)
  next
    case (Some sc)
    then show ?thesis
      using v ne a isf
      by (simp add: handle_add_cmd_def target Let_def add_code_files_single)
  qed
qed

lemma handle_add_written:
  assumes "handle_add_cmd fs args config = Inr c'" "c' \<noteq> config"
  shows "\<exists>d. c' = save_config d"
  using assms
  by (auto simp: handle_add_cmd_def Let_def
           split: option.splits if_splits sum.splits prod.splits list.splits)

lemma add_twice:
  assumes tgt: "arg_scope_name args = Some t
                \<or> arg_scope_name args = None \<and> get_current_scope_name config = Some t"
    and v: "is_valid_scope_name t"
    and a: "arg_file_paths args = [f]" "\<not> arg_add_context args" "\<not> arg_add_prompt args"
    and isf: "is_file fs f"
    and once: "\<forall>sc0. get_scope_data config t = Some sc0 \<longrightarrow> count_list (files sc0) (resolve fs f) \<le> 1"
  shows "\<exists>c1 sc1. handle_add_cmd fs args config = Inr c1 \<and> handle_add_cmd fs args c1 = Inr c1
            \<and> get_scope_data c1 t = Some sc1 \<and> count_list (files sc1) (resolve fs f) = 1"
proof -
  let ?af = "resolve fs f"
  let ?sd = "case get_scope_data config t of Some sc \<Rightarrow> sc | None \<Rightarrow> initialize_scope_dict"
  note first = handle_add_single[OF tgt v a isf]
  show ?thesis
  proof (cases "?af \<in> set (files ?sd)")
    case True
    then obtain sc0 where g: "get_scope_data config t = Some sc0"
      by (cases "get_scope_data config t") (auto simp: initialize_scope_dict_def)
    with True have m: "?af \<in> set (files sc0)" by simp
    have r: "handle_add_cmd fs args config = Inr config" using first True by simp
    have "count_list (files sc0) ?af = 1"
      using m once g by (intro count_list_member_le_1) auto
    with r g show ?thesis by blast
  next
    case False
    let ?new = "?sd\<lparr>files := files ?sd @ [?af]\<rparr>"
    let ?c1 = "save_config (config(t \<mapsto> ScopeDict ?new))"
    let ?sc1 = "if \<not> startswith t ''_klyp_'' then ?new\<lparr>files := sort (remdups (files ?new))\<rparr> else ?new"
    have r: "handle_add_cmd fs args config = Inr ?c1" using first False by simp
    have "(config(t \<mapsto> ScopeDict ?new)) t = Some (ScopeDict ?new)" by simp
    then have "save_config (config(t \<mapsto> ScopeDict ?new)) t = Some (ScopeDict ?sc1)"
      by (rule save_config_scope)
    then have g1: "get_scope_data ?c1 t = Some ?sc1"
      using v by (simp only: get_scope_data_Some_iff simp_thms)
    have m1: "?af \<in> set (files ?sc1)" by simp
    have cnt: "count_list (files ?sc1) ?af = 1"
    proof (cases "startswith t ''_klyp_''")
      case True
      then show ?thesis using False by (simp add: count_list_snoc_new)
    next
      case False
      then show ?thesis by (simp add: count_list_distinct)
    qed
    have p: "get_current_scope_name ?c1 = get_current_scope_name config"
      using valid_not_current[OF v]
      by (simp add: get_current_scope_name_save get_current_scope_name_upd)
    have tgt1: "arg_scope_name args = Some t
                \<or> arg_scope_name args = None \<and> get_current_scope_name ?c1 = Some t"
      using tgt by (simp only: p)
    have "handle_add_cmd fs args ?c1 = Inr ?c1"
      using handle_add_single[OF tgt1 v a isf] m1 by (simp only: g1 option.case if_True)
    with r g1 cnt show ?thesis by blast
  qed
qed

subsection \<open>The end of the assembled text\<close>

text \<open>
  A non-empty assembled text ends with exactly one newline: it is a stripped, non-empty
  text, whose last character is no whitespace, followed by one newline.
\<close>

lemma join_parts_ends:
  assumes "join_parts parts \<noteq> ''''"
  shows "\<exists>s. join_parts parts = s @ ''\<newline>'' \<and> s \<noteq> '''' \<and> \<not> isspace_char (last s)"
proof -
  let ?s = "strip (concat parts)"
  have ne: "?s \<noteq> ''''" using assms by (auto simp: join_parts_def Let_def split: if_splits)
  then have "join_parts parts = ?s @ ''\<newline>''" by (simp add: join_parts_def Let_def)
  moreover have "\<not> isspace_char (last ?s)" using ne by (rule strip_not_space_ends(2))
  ultimately show ?thesis using ne by blast
qed

lemma assemble_not_no_active_scope: "snd (assemble fs base name sc) \<noteq> Inl NoActiveScope"
proof (cases sc fs rule: assemble_cases)
  case missing
  show ?thesis unfolding assemble_missing[OF missing] by simp
next
  case tracked
  show ?thesis unfolding assemble_tracked_exist[OF tracked] by simp
next
  case nofiles
  show ?thesis unfolding assemble_no_files[OF nofiles] by simp
qed

lemma get_scope_data_empty_name: "get_scope_data config '''' = None"
  by (simp add: get_scope_data_def)

section \<open>The claims\<close>

text \<open>
  C2. For every scope record, if a tracked file of its file list is not a regular file
  when the scope is assembled, the assembly fails (the \<open>sys.exit(1)\<close> branch), the
  failure lists the display path of every missing tracked file, in sorted order, and no
  text is returned.
\<close>

theorem missing_tracked_files_abort:
  assumes "\<exists>p\<in>set (files sc). \<not> is_file fs p"
  shows "snd (assemble fs base name sc) =
           Inl (MissingTrackedFiles
                  (sort (map (\<lambda>p. get_display_path fs p base)
                             (filter (\<lambda>p. \<not> is_file fs p) (files sc)))))"
  using assemble_missing [OF assms] by simp

theorem missing_tracked_files_abort_witness:
  "(\<exists>p\<in>set (files \<lparr>files = [''/proj/zz.txt'', ''/proj/f.txt'', ''/proj/gone.txt''],
                      context_file = Some ''/proj/ctx.md'', prompt_file = None\<rparr>).
       \<not> is_file demo_fs p)
   \<and> snd (assemble demo_fs ''/proj'' ''default''
            \<lparr>files = [''/proj/zz.txt'', ''/proj/f.txt'', ''/proj/gone.txt''],
               context_file = Some ''/proj/ctx.md'', prompt_file = None\<rparr>)
       = Inl (MissingTrackedFiles [''./gone.txt'', ''./zz.txt''])"
proof -
  let ?sc = "\<lparr>files = [''/proj/zz.txt'', ''/proj/f.txt'', ''/proj/gone.txt''],
               context_file = Some ''/proj/ctx.md'', prompt_file = None\<rparr>"
  have h: "\<exists>p\<in>set (files ?sc). \<not> is_file demo_fs p"
    by (simp add: demo_fs_def)
  have e: "sort (map (\<lambda>p. get_display_path demo_fs p ''/proj'')
                     (filter (\<lambda>p. \<not> is_file demo_fs p) (files ?sc)))
           = [''./gone.txt'', ''./zz.txt'']"
    by code_simp
  show ?thesis
    using h missing_tracked_files_abort [OF h, of "''/proj''" "''default''"]
    unfolding e by blast
qed

text \<open>
  C10. A tracked file that is a regular file at the missing-file check but whose read
  raises \<open>IOError\<close> does not abort the assembly: a warning names it, the manifest lists
  its display path, no fenced block is emitted for it, and the file count returned is the
  number of files that were read.
\<close>

theorem unreadable_tracked_file_skipped:
  fixes fs base sc
  defines "dp \<equiv> \<lambda>p. get_display_path fs p base"
  defines "S \<equiv> sort_key dp (files sc)"
  defines "c \<equiv> slot_text fs (context_file sc)"
  defines "q \<equiv> slot_text fs (prompt_file sc)"
  defines "text \<equiv> join_parts
     ((if c \<noteq> '''' then [c, ''\<newline>\<newline>''] else [])
       @ manifest_parts (map dp S)
       @ map (\<lambda>p. file_block (dp p) (strip (the (read_text fs p))))
             (filter (\<lambda>p. read_text fs p \<noteq> None) S)
       @ (if q \<noteq> '''' then [q] else []))"
  assumes ex: "\<forall>p\<in>set (files sc). is_file fs p"
    and mem: "f \<in> set (files sc)" and io: "read_text fs f = None"
  shows "snd (assemble fs base name sc) =
           Inr (text, length (filter (\<lambda>p. read_text fs p \<noteq> None) (files sc)), length text, name)
         \<and> FileUnreadable (dp f) \<in> set (fst (assemble fs base name sc))
         \<and> dp f \<in> set (map dp S)
         \<and> f \<notin> set (filter (\<lambda>p. read_text fs p \<noteq> None) S)
         \<and> length (filter (\<lambda>p. read_text fs p \<noteq> None) (files sc)) < length (files sc)"
proof -
  have ne: "files sc \<noteq> []" using mem by auto
  have A: "assemble fs base name sc =
     (snd (context_section fs base sc)
        @ map (\<lambda>p. FileUnreadable (dp p)) (filter (\<lambda>p. read_text fs p = None) S)
        @ (if filter (\<lambda>p. read_text fs p \<noteq> None) S = [] then [NoFilesReadable] else [])
        @ snd (snd (prompt_section fs base sc [])),
      Inr (text, length (filter (\<lambda>p. read_text fs p \<noteq> None) S), length text, name))"
    unfolding text_def S_def dp_def c_def q_def by (rule assemble_tracked_exist[OF ex ne])
  have 1: "snd (assemble fs base name sc) =
           Inr (text, length (filter (\<lambda>p. read_text fs p \<noteq> None) (files sc)), length text, name)"
    unfolding A by (simp add: S_def length_filter_sort_key)
  have "f \<in> set (filter (\<lambda>p. read_text fs p = None) S)"
    using mem io by (simp add: S_def)
  then have 2: "FileUnreadable (dp f) \<in> set (fst (assemble fs base name sc))"
    unfolding A by simp
  have 3: "dp f \<in> set (map dp S)" using mem by (simp add: S_def)
  have 4: "f \<notin> set (filter (\<lambda>p. read_text fs p \<noteq> None) S)" using io by simp
  have 5: "length (filter (\<lambda>p. read_text fs p \<noteq> None) (files sc)) < length (files sc)"
    using mem io by (intro length_filter_less[of f]) simp_all
  from 1 2 3 4 5 show ?thesis by blast
qed

theorem unreadable_tracked_file_skipped_witness:
  "list_all (is_file demo_fs) [''/proj/b.txt'', ''/proj/locked.txt'', ''/proj/a.txt'']
   \<and> ''/proj/locked.txt'' \<in> set [''/proj/b.txt'', ''/proj/locked.txt'', ''/proj/a.txt'']
   \<and> read_text demo_fs ''/proj/locked.txt'' = None
   \<and> assemble demo_fs ''/proj'' ''default''
         \<lparr>files = [''/proj/b.txt'', ''/proj/locked.txt'', ''/proj/a.txt''],
            context_file = None, prompt_file = None\<rparr>
       = ([FileUnreadable ''./locked.txt''],
          Inr (''Project Structure:\<newline>```\<newline>./a.txt\<newline>./b.txt\<newline>./locked.txt\<newline>```\<newline>\<newline>./a.txt:\<newline>```\<newline>A\<newline>```\<newline>\<newline>./b.txt:\<newline>```\<newline>B\<newline>```\<newline>'',
               2, 96, ''default''))"
proof -
  let ?sc = "\<lparr>files = [''/proj/b.txt'', ''/proj/locked.txt'', ''/proj/a.txt''],
               context_file = None, prompt_file = None\<rparr>"
  have h1: "\<forall>p\<in>set (files ?sc). is_file demo_fs p" by (simp add: demo_fs_def)
  have h2: "''/proj/locked.txt'' \<in> set (files ?sc)" by simp
  have h3: "read_text demo_fs ''/proj/locked.txt'' = None" by (simp add: demo_fs_def)
  have r: "assemble demo_fs ''/proj'' ''default'' ?sc
       = ([FileUnreadable ''./locked.txt''],
          Inr (''Project Structure:\<newline>```\<newline>./a.txt\<newline>./b.txt\<newline>./locked.txt\<newline>```\<newline>\<newline>./a.txt:\<newline>```\<newline>A\<newline>```\<newline>\<newline>./b.txt:\<newline>```\<newline>B\<newline>```\<newline>'',
               2, 96, ''default''))"
    by code_simp
  have h1': "list_all (is_file demo_fs) [''/proj/b.txt'', ''/proj/locked.txt'', ''/proj/a.txt'']"
    using h1 by (simp add: list_all_iff)
  have h2': "''/proj/locked.txt'' \<in> set [''/proj/b.txt'', ''/proj/locked.txt'', ''/proj/a.txt'']"
    by simp
  show ?thesis
    using unreadable_tracked_file_skipped [OF h1 h2 h3, of "''/proj''" "''default''"] h1' h2' h3 r
    by blast
qed

text \<open>
  C3. For every scope record whose tracked files all exist, the code section is ordered
  by display path: with \<open>S\<close> the tracked paths in the (stable) order of their display
  paths, the manifest lists the display paths of \<open>S\<close> and the fenced blocks follow in
  the order of \<open>S\<close>. The stored order of the file list does not matter: any other
  arrangement of the same file list is assembled to the same result (paths displayed
  alike being read alike).
\<close>

theorem code_section_sorted_by_display_path:
  fixes fs base sc
  defines "dp \<equiv> \<lambda>p. get_display_path fs p base"
  defines "S \<equiv> sort_key dp (files sc)"
  defines "c \<equiv> slot_text fs (context_file sc)"
  defines "q \<equiv> slot_text fs (prompt_file sc)"
  defines "text \<equiv> join_parts
     ((if c \<noteq> '''' then [c, ''\<newline>\<newline>''] else [])
       @ manifest_parts (map dp S)
       @ map (\<lambda>p. file_block (dp p) (strip (the (read_text fs p))))
             (filter (\<lambda>p. read_text fs p \<noteq> None) S)
       @ (if q \<noteq> '''' then [q] else []))"
  assumes ex: "\<forall>p\<in>set (files sc). is_file fs p" and ne: "files sc \<noteq> []"
  shows "sorted (map dp S) \<and> mset S = mset (files sc)
         \<and> map dp S = sort (map dp (files sc))
         \<and> snd (assemble fs base name sc) =
              Inr (text, length (filter (\<lambda>p. read_text fs p \<noteq> None) S), length text, name)
         \<and> (\<forall>fl'. mset fl' = mset (files sc)
                \<and> (\<forall>a\<in>set (files sc). \<forall>b\<in>set (files sc).
                      dp a = dp b \<longrightarrow> read_text fs a = read_text fs b)
              \<longrightarrow> assemble fs base name (sc\<lparr>files := fl'\<rparr>) = assemble fs base name sc)"
proof -
  have 1: "sorted (map dp S)" by (simp add: S_def)
  have 2: "mset S = mset (files sc)" by (simp add: S_def)
  have "sort_key (\<lambda>x. x) (map dp (files sc)) = map dp (sort_key dp (files sc))"
    by (rule sort_key_map)
  then have 3: "map dp S = sort (map dp (files sc))" by (simp add: S_def)
  have 4: "snd (assemble fs base name sc) =
              Inr (text, length (filter (\<lambda>p. read_text fs p \<noteq> None) S), length text, name)"
    unfolding text_def S_def dp_def c_def q_def
    by (simp only: assemble_tracked_exist[OF ex ne] snd_conv)
  have 5: "\<forall>fl'. mset fl' = mset (files sc)
                \<and> (\<forall>a\<in>set (files sc). \<forall>b\<in>set (files sc).
                      dp a = dp b \<longrightarrow> read_text fs a = read_text fs b)
              \<longrightarrow> assemble fs base name (sc\<lparr>files := fl'\<rparr>) = assemble fs base name sc"
    unfolding dp_def using assemble_perm[OF ex ne] by blast
  from 1 2 3 4 5 show ?thesis by blast
qed

theorem code_section_sorted_by_display_path_witness:
  "list_all (is_file demo_fs) [''/proj/b.txt'', ''/proj/a.txt'']
   \<and> mset [''/proj/a.txt'', ''/proj/b.txt''] = mset [''/proj/b.txt'', ''/proj/a.txt'']
   \<and> snd (assemble demo_fs ''/proj'' ''default''
         \<lparr>files = [''/proj/b.txt'', ''/proj/a.txt''], context_file = None, prompt_file = None\<rparr>)
       = Inr (''Project Structure:\<newline>```\<newline>./a.txt\<newline>./b.txt\<newline>```\<newline>\<newline>./a.txt:\<newline>```\<newline>A\<newline>```\<newline>\<newline>./b.txt:\<newline>```\<newline>B\<newline>```\<newline>'',
              2, 83, ''default'')
   \<and> assemble demo_fs ''/proj'' ''default''
         \<lparr>files = [''/proj/a.txt'', ''/proj/b.txt''], context_file = None, prompt_file = None\<rparr>
       = assemble demo_fs ''/proj'' ''default''
         \<lparr>files = [''/proj/b.txt'', ''/proj/a.txt''], context_file = None, prompt_file = None\<rparr>"
proof -
  let ?sc = "\<lparr>files = [''/proj/b.txt'', ''/proj/a.txt''], context_file = None, prompt_file = None\<rparr>"
  have h1: "\<forall>p\<in>set (files ?sc). is_file demo_fs p" by (simp add: demo_fs_def)
  have h2: "files ?sc \<noteq> []" by simp
  have da: "get_display_path demo_fs ''/proj/a.txt'' ''/proj'' = ''./a.txt''" by code_simp
  have db: "get_display_path demo_fs ''/proj/b.txt'' ''/proj'' = ''./b.txt''" by code_simp
  have m: "mset [''/proj/a.txt'', ''/proj/b.txt''] = mset (files ?sc)" by simp
  have tie: "\<forall>a\<in>set (files ?sc). \<forall>b\<in>set (files ?sc).
               get_display_path demo_fs a ''/proj'' = get_display_path demo_fs b ''/proj''
                 \<longrightarrow> read_text demo_fs a = read_text demo_fs b"
    by (simp add: da db)
  have r: "snd (assemble demo_fs ''/proj'' ''default'' ?sc)
       = Inr (''Project Structure:\<newline>```\<newline>./a.txt\<newline>./b.txt\<newline>```\<newline>\<newline>./a.txt:\<newline>```\<newline>A\<newline>```\<newline>\<newline>./b.txt:\<newline>```\<newline>B\<newline>```\<newline>'',
              2, 83, ''default'')"
    by code_simp
  have u: "?sc\<lparr>files := [''/proj/a.txt'', ''/proj/b.txt'']\<rparr>
           = \<lparr>files = [''/proj/a.txt'', ''/proj/b.txt''], context_file = None, prompt_file = None\<rparr>"
    by simp
  have "assemble demo_fs ''/proj'' ''default'' (?sc\<lparr>files := [''/proj/a.txt'', ''/proj/b.txt'']\<rparr>)
        = assemble demo_fs ''/proj'' ''default'' ?sc"
    using code_section_sorted_by_display_path [OF h1 h2, of "''/proj''" "''default''"] m tie
    by blast
  then show ?thesis using h1 m r unfolding u by (simp add: list_all_iff)
qed

text \<open>
  C4. A context file (respectively prompt file) that is set but is not a regular file
  when the scope is assembled does not make the assembly fail: the result is the result
  for the same scope with that slot unset, so the section is omitted and the other
  sections are as they would be, and the warning is printed. With the tracked files all
  existing the assembly returns content.
\<close>

theorem missing_context_or_prompt_not_fatal:
  "(context_file sc = Some p \<and> p \<noteq> '''' \<and> \<not> is_file fs p \<longrightarrow>
      fst (assemble fs base name sc) =
        ContextMissing (get_display_path fs p base)
          # fst (assemble fs base name (sc\<lparr>context_file := None\<rparr>))
      \<and> snd (assemble fs base name sc) = snd (assemble fs base name (sc\<lparr>context_file := None\<rparr>)))
   \<and> (prompt_file sc = Some p \<and> p \<noteq> '''' \<and> \<not> is_file fs p \<longrightarrow>
      snd (assemble fs base name sc) = snd (assemble fs base name (sc\<lparr>prompt_file := None\<rparr>))
      \<and> ((\<forall>f\<in>set (files sc). is_file fs f) \<longrightarrow>
            PromptMissing (get_display_path fs p base) \<in> set (fst (assemble fs base name sc))))
   \<and> ((\<forall>f\<in>set (files sc). is_file fs f) \<longrightarrow>
        (\<exists>text n. snd (assemble fs base name sc) = Inr (text, n, length text, name)))"
proof (intro conjI impI)
  assume a: "context_file sc = Some p \<and> p \<noteq> '''' \<and> \<not> is_file fs p"
  then have a1: "context_file sc = Some p" and a2: "p \<noteq> ''''" and a3: "\<not> is_file fs p"
    by simp_all
  have e: "assemble fs base name sc =
           (ContextMissing (get_display_path fs p base)
              # fst (assemble fs base name (sc\<lparr>context_file := None\<rparr>)),
            snd (assemble fs base name (sc\<lparr>context_file := None\<rparr>)))"
    by (rule assemble_missing_context[OF a1 a2 a3])
  show "fst (assemble fs base name sc) =
        ContextMissing (get_display_path fs p base)
          # fst (assemble fs base name (sc\<lparr>context_file := None\<rparr>))"
    by (subst e) simp
  show "snd (assemble fs base name sc) = snd (assemble fs base name (sc\<lparr>context_file := None\<rparr>))"
    by (subst e) simp
next
  assume a: "prompt_file sc = Some p \<and> p \<noteq> '''' \<and> \<not> is_file fs p"
  then have a1: "prompt_file sc = Some p" and a2: "p \<noteq> ''''" and a3: "\<not> is_file fs p"
    by simp_all
  show "snd (assemble fs base name sc) = snd (assemble fs base name (sc\<lparr>prompt_file := None\<rparr>))"
    by (rule assemble_missing_prompt(1)[OF a1 a2 a3])
  assume "\<forall>f\<in>set (files sc). is_file fs f"
  then show "PromptMissing (get_display_path fs p base) \<in> set (fst (assemble fs base name sc))"
    by (rule assemble_missing_prompt(2)[OF a1 a2 a3])
next
  assume "\<forall>f\<in>set (files sc). is_file fs f"
  then show "\<exists>text n. snd (assemble fs base name sc) = Inr (text, n, length text, name)"
    by (rule assemble_succeeds)
qed

theorem missing_context_or_prompt_not_fatal_witness:
  "context_file \<lparr>files = [''/proj/f.txt''], context_file = Some ''/proj/gone.md'',
                  prompt_file = Some ''/proj/gone.md''\<rparr> = Some ''/proj/gone.md''
   \<and> prompt_file \<lparr>files = [''/proj/f.txt''], context_file = Some ''/proj/gone.md'',
                  prompt_file = Some ''/proj/gone.md''\<rparr> = Some ''/proj/gone.md''
   \<and> \<not> is_file demo_fs ''/proj/gone.md''
   \<and> list_all (is_file demo_fs) [''/proj/f.txt'']
   \<and> assemble demo_fs ''/proj'' ''default''
         \<lparr>files = [''/proj/f.txt''], context_file = Some ''/proj/gone.md'',
            prompt_file = Some ''/proj/gone.md''\<rparr>
       = ([ContextMissing ''./gone.md'', PromptMissing ''./gone.md''],
          Inr (''Project Structure:\<newline>```\<newline>./f.txt\<newline>```\<newline>\<newline>./f.txt:\<newline>```\<newline>X\<newline>```\<newline>'',
               1, 55, ''default''))
   \<and> snd (assemble demo_fs ''/proj'' ''default''
         \<lparr>files = [''/proj/f.txt''], context_file = Some ''/proj/gone.md'',
            prompt_file = Some ''/proj/gone.md''\<rparr>)
       = snd (assemble demo_fs ''/proj'' ''default''
         \<lparr>files = [''/proj/f.txt''], context_file = None, prompt_file = Some ''/proj/gone.md''\<rparr>)
   \<and> snd (assemble demo_fs ''/proj'' ''default''
         \<lparr>files = [''/proj/f.txt''], context_file = Some ''/proj/gone.md'',
            prompt_file = Some ''/proj/gone.md''\<rparr>)
       = snd (assemble demo_fs ''/proj'' ''default''
         \<lparr>files = [''/proj/f.txt''], context_file = Some ''/proj/gone.md'', prompt_file = None\<rparr>)"
proof -
  let ?sc = "\<lparr>files = [''/proj/f.txt''], context_file = Some ''/proj/gone.md'',
               prompt_file = Some ''/proj/gone.md''\<rparr>"
  have h1: "context_file ?sc = Some ''/proj/gone.md'' \<and> ''/proj/gone.md'' \<noteq> ''''
            \<and> \<not> is_file demo_fs ''/proj/gone.md''"
    by (simp add: demo_fs_def)
  have h2: "prompt_file ?sc = Some ''/proj/gone.md'' \<and> ''/proj/gone.md'' \<noteq> ''''
            \<and> \<not> is_file demo_fs ''/proj/gone.md''"
    by (simp add: demo_fs_def)
  have h3: "\<forall>f\<in>set (files ?sc). is_file demo_fs f" by (simp add: demo_fs_def)
  have h3': "list_all (is_file demo_fs) [''/proj/f.txt'']" by (simp add: demo_fs_def)
  have r: "assemble demo_fs ''/proj'' ''default'' ?sc
       = ([ContextMissing ''./gone.md'', PromptMissing ''./gone.md''],
          Inr (''Project Structure:\<newline>```\<newline>./f.txt\<newline>```\<newline>\<newline>./f.txt:\<newline>```\<newline>X\<newline>```\<newline>'',
               1, 55, ''default''))"
    by code_simp
  have u1: "?sc\<lparr>context_file := None\<rparr>
         = \<lparr>files = [''/proj/f.txt''], context_file = None, prompt_file = Some ''/proj/gone.md''\<rparr>"
    by simp
  have u2: "?sc\<lparr>prompt_file := None\<rparr>
         = \<lparr>files = [''/proj/f.txt''], context_file = Some ''/proj/gone.md'', prompt_file = None\<rparr>"
    by simp
  show ?thesis
    using missing_context_or_prompt_not_fatal
            [of ?sc "''/proj/gone.md''" demo_fs "''/proj''" "''default''"]
          h1 h2 h3 h3' r
    unfolding u1 u2 by blast
qed

text \<open>
  C1, as the claim states it, fails: a tracked file of the project directory is
  displayed as \<open>./f.txt\<close>, in the manifest and as the label of its block.
\<close>

theorem assemble_labels_counterexample:
  "assemble demo_fs ''/proj'' ''default''
     \<lparr>files = [''/proj/f.txt''], context_file = Some ''/proj/ctx.md'',
        prompt_file = Some ''/proj/prompt.md''\<rparr>
   = ([], Inr (''C\<newline>\<newline>Project Structure:\<newline>```\<newline>./f.txt\<newline>```\<newline>\<newline>./f.txt:\<newline>```\<newline>X\<newline>```\<newline>\<newline>P\<newline>'',
               1, 61, ''default''))
   \<and> ''C\<newline>\<newline>Project Structure:\<newline>```\<newline>./f.txt\<newline>```\<newline>\<newline>./f.txt:\<newline>```\<newline>X\<newline>```\<newline>\<newline>P\<newline>''
       \<noteq> ''C\<newline>\<newline>Project Structure:\<newline>```\<newline>f.txt\<newline>```\<newline>\<newline>f.txt:\<newline>```\<newline>X\<newline>```\<newline>\<newline>P\<newline>''"
proof -
  have "assemble demo_fs ''/proj'' ''default''
     \<lparr>files = [''/proj/f.txt''], context_file = Some ''/proj/ctx.md'',
        prompt_file = Some ''/proj/prompt.md''\<rparr>
   = ([], Inr (''C\<newline>\<newline>Project Structure:\<newline>```\<newline>./f.txt\<newline>```\<newline>\<newline>./f.txt:\<newline>```\<newline>X\<newline>```\<newline>\<newline>P\<newline>'',
               1, 61, ''default''))"
    by code_simp
  then show ?thesis by simp
qed

text \<open>
  C1, amended. For a scope whose context file's stripped content is \<open>C\<close>, whose file
  list is the one existing file \<open>f.txt\<close> of the project directory with stripped
  content \<open>X\<close>, and whose prompt file's stripped content is \<open>P\<close>, the assembly
  returns exactly context, blank line, manifest, blank line, block, blank line, prompt,
  newline, the file being labelled \<open>./f.txt\<close> in the manifest and on its block.
\<close>

theorem assemble_context_file_prompt:
  assumes b: "is_absolute base"
    and c: "context_file sc = Some cp" "cp \<noteq> ''''" "is_file fs cp"
           "read_text fs cp = Some ct" "strip ct = ''C''"
    and f: "files sc = [base @ ''/f.txt'']" "is_file fs (base @ ''/f.txt'')"
           "read_text fs (base @ ''/f.txt'') = Some xt" "strip xt = ''X''"
    and p: "prompt_file sc = Some pp" "pp \<noteq> ''''" "is_file fs pp"
           "read_text fs pp = Some pt" "strip pt = ''P''"
  shows "assemble fs base name sc =
           ([], Inr (''C\<newline>\<newline>Project Structure:\<newline>```\<newline>./f.txt\<newline>```\<newline>\<newline>./f.txt:\<newline>```\<newline>X\<newline>```\<newline>\<newline>P\<newline>'',
                     1, 61, name))"
proof -
  have ex: "\<forall>p\<in>set (files sc). is_file fs p" and ne: "files sc \<noteq> []"
    using f by simp_all
  have d: "get_display_path fs (base @ ''/f.txt'') base = ''./f.txt''"
    using display_path_child[OF b, of "''f.txt''" fs] by simp
  have tc: "slot_text fs (context_file sc) = ''C''"
    using c slot_text_read[of cp fs ct] by simp
  have tp: "slot_text fs (prompt_file sc) = ''P''"
    using p slot_text_read[of pp fs pt] by simp
  have mc: "snd (context_section fs base sc) = []"
    using c by (intro context_section_read) simp_all
  have mp: "snd (snd (prompt_section fs base sc [])) = []"
    using p by (intro prompt_section_read) simp_all
  have j: "join_parts (''C'' # ''\<newline>\<newline>'' # manifest_parts [''./f.txt'']
                        @ [file_block ''./f.txt'' ''X'', ''P''])
           = ''C\<newline>\<newline>Project Structure:\<newline>```\<newline>./f.txt\<newline>```\<newline>\<newline>./f.txt:\<newline>```\<newline>X\<newline>```\<newline>\<newline>P\<newline>''"
    by code_simp
  show ?thesis
    unfolding assemble_tracked_exist[OF ex ne]
    using f(3,4) by (simp add: f(1) d tc tp mc mp j)
qed

theorem assemble_context_file_prompt_witness:
  "is_absolute ''/proj''
   \<and> is_file demo_fs ''/proj/ctx.md'' \<and> is_file demo_fs ''/proj/f.txt''
   \<and> is_file demo_fs ''/proj/prompt.md''
   \<and> strip ''  C\<newline>'' = ''C'' \<and> strip ''X\<newline>'' = ''X'' \<and> strip ''P'' = ''P''
   \<and> assemble demo_fs ''/proj'' ''default''
        \<lparr>files = [''/proj/f.txt''], context_file = Some ''/proj/ctx.md'',
           prompt_file = Some ''/proj/prompt.md''\<rparr>
      = ([], Inr (''C\<newline>\<newline>Project Structure:\<newline>```\<newline>./f.txt\<newline>```\<newline>\<newline>./f.txt:\<newline>```\<newline>X\<newline>```\<newline>\<newline>P\<newline>'',
                  1, 61, ''default''))"
proof -
  let ?sc = "\<lparr>files = [''/proj/f.txt''], context_file = Some ''/proj/ctx.md'',
               prompt_file = Some ''/proj/prompt.md''\<rparr>"
  have b: "is_absolute ''/proj''" by (simp add: is_absolute_def startswith_def)
  have i: "is_file demo_fs ''/proj/ctx.md''" "is_file demo_fs ''/proj/f.txt''"
          "is_file demo_fs ''/proj/prompt.md''"
    by (simp_all add: demo_fs_def)
  have r: "read_text demo_fs ''/proj/ctx.md'' = Some ''  C\<newline>''"
          "read_text demo_fs ''/proj/f.txt'' = Some ''X\<newline>''"
          "read_text demo_fs ''/proj/prompt.md'' = Some ''P''"
    by (simp_all add: demo_fs_def)
  have s: "strip ''  C\<newline>'' = ''C''" "strip ''X\<newline>'' = ''X''" "strip ''P'' = ''P''"
    by (simp_all add: strip_def isspace_char_def whitespace_chars_def)
  have "assemble demo_fs ''/proj'' ''default'' ?sc
      = ([], Inr (''C\<newline>\<newline>Project Structure:\<newline>```\<newline>./f.txt\<newline>```\<newline>\<newline>./f.txt:\<newline>```\<newline>X\<newline>```\<newline>\<newline>P\<newline>'',
                  1, 61, ''default''))"
    using assemble_context_file_prompt
            [of "''/proj''" ?sc "''/proj/ctx.md''" demo_fs "''  C\<newline>''" "''X\<newline>''"
                "''/proj/prompt.md''" "''P''" "''default''"]
          b i r s
    by simp
  with b i s show ?thesis by blast
qed

text \<open>
  C9, as the claim states it, fails for a scope whose only content is a tracked file that
  strips to the empty text: the manifest and an empty fenced block are returned, with a
  file count of one, not the "nothing to assemble" result.
\<close>

theorem empty_tracked_file_counterexample:
  "is_file demo_fs ''/proj/empty.txt''
   \<and> map_option strip (read_text demo_fs ''/proj/empty.txt'') = Some ''''
   \<and> assemble demo_fs ''/proj'' ''default''
         \<lparr>files = [''/proj/empty.txt''], context_file = None, prompt_file = None\<rparr>
       = ([], Inr (''Project Structure:\<newline>```\<newline>./empty.txt\<newline>```\<newline>\<newline>./empty.txt:\<newline>```\<newline>\<newline>```\<newline>'',
                   1, 62, ''default''))
   \<and> snd (assemble demo_fs ''/proj'' ''default''
         \<lparr>files = [''/proj/empty.txt''], context_file = None, prompt_file = None\<rparr>)
       \<noteq> Inr ('''', 0, 0, ''default'')"
proof -
  have a: "is_file demo_fs ''/proj/empty.txt''" by (simp add: demo_fs_def)
  have b: "map_option strip (read_text demo_fs ''/proj/empty.txt'') = Some ''''" by code_simp
  have c: "assemble demo_fs ''/proj'' ''default''
         \<lparr>files = [''/proj/empty.txt''], context_file = None, prompt_file = None\<rparr>
       = ([], Inr (''Project Structure:\<newline>```\<newline>./empty.txt\<newline>```\<newline>\<newline>./empty.txt:\<newline>```\<newline>\<newline>```\<newline>'',
                   1, 62, ''default''))"
    by code_simp
  show ?thesis using a b unfolding c by simp
qed

text \<open>
  C9, amended. The "nothing to assemble" result (empty text, zero file count, with the
  notice that the scope is completely empty) is returned exactly when the scope has no
  tracked files and neither the context slot nor the prompt slot contributes text: each
  is unset, or its file is missing, unreadable or strips to the empty text. It is a
  returned value, not a failure. A scope with tracked files never yields it.
\<close>

theorem nothing_to_assemble:
  "(snd (assemble fs base name sc) = Inr ('''', 0, 0, name)
      \<longleftrightarrow> files sc = [] \<and> slot_text fs (context_file sc) = ''''
            \<and> slot_text fs (prompt_file sc) = '''')
   \<and> (files sc = [] \<and> slot_text fs (context_file sc) = '''' \<and> slot_text fs (prompt_file sc) = ''''
        \<longrightarrow> CompletelyEmpty \<in> set (fst (assemble fs base name sc)))"
proof (intro conjI impI)
  show "snd (assemble fs base name sc) = Inr ('''', 0, 0, name)
      \<longleftrightarrow> files sc = [] \<and> slot_text fs (context_file sc) = ''''
            \<and> slot_text fs (prompt_file sc) = ''''"
  proof (cases sc fs rule: assemble_cases)
    case missing
    then have "files sc \<noteq> []" by auto
    then show ?thesis unfolding assemble_missing[OF missing] by simp
  next
    case tracked
    show ?thesis
      unfolding assemble_tracked_exist[OF tracked]
      using tracked(2) join_parts_manifest_ne by simp
  next
    case nofiles
    show ?thesis unfolding assemble_no_files[OF nofiles] using nofiles by auto
  qed
next
  assume a: "files sc = [] \<and> slot_text fs (context_file sc) = ''''
             \<and> slot_text fs (prompt_file sc) = ''''"
  then have n: "files sc = []" by simp
  show "CompletelyEmpty \<in> set (fst (assemble fs base name sc))"
    unfolding assemble_no_files[OF n] using a by simp
qed

theorem nothing_to_assemble_witness:
  "files \<lparr>files = [], context_file = Some ''/proj/empty.txt'', prompt_file = Some ''/proj/gone.md''\<rparr> = []
   \<and> slot_text demo_fs (Some ''/proj/empty.txt'') = ''''
   \<and> slot_text demo_fs (Some ''/proj/gone.md'') = ''''
   \<and> assemble demo_fs ''/proj'' ''default''
        \<lparr>files = [], context_file = Some ''/proj/empty.txt'', prompt_file = Some ''/proj/gone.md''\<rparr>
      = ([PromptMissing ''./gone.md'', CompletelyEmpty], Inr ('''', 0, 0, ''default''))"
proof -
  let ?sc = "\<lparr>files = [], context_file = Some ''/proj/empty.txt'', prompt_file = Some ''/proj/gone.md''\<rparr>"
  have s1: "slot_text demo_fs (Some ''/proj/empty.txt'') = ''''" by code_simp
  have s2: "slot_text demo_fs (Some ''/proj/gone.md'') = ''''" by code_simp
  have h: "files ?sc = [] \<and> slot_text demo_fs (context_file ?sc) = ''''
           \<and> slot_text demo_fs (prompt_file ?sc) = ''''"
    using s1 s2 by simp
  have r: "assemble demo_fs ''/proj'' ''default'' ?sc
      = ([PromptMissing ''./gone.md'', CompletelyEmpty], Inr ('''', 0, 0, ''default''))"
    by code_simp
  have "files ?sc = []" by simp
  then show ?thesis
    using nothing_to_assemble [of demo_fs "''/proj''" "''default''" ?sc] h s1 s2 r
    by blast
qed

text \<open>
  C5. The claim requires a blank line between a context section and a prompt section that
  follow each other. The code does not produce it: for a scope with no tracked files, a
  context text \<open>c\<close> and a prompt text \<open>q\<close>, both non-empty, the text returned is
  \<open>c\<close>, one newline, \<open>q\<close>, one newline. The separator appended before the prompt is
  \<open>"\n"\<close>, where the one appended before the code section is \<open>"\n\n"\<close>.
\<close>

theorem context_then_prompt_single_newline:
  assumes "files sc = []"
    and "slot_text fs (context_file sc) \<noteq> ''''" and "slot_text fs (prompt_file sc) \<noteq> ''''"
  shows "snd (assemble fs base name sc) =
           Inr (slot_text fs (context_file sc) @ ''\<newline>'' @ slot_text fs (prompt_file sc) @ ''\<newline>'',
                0,
                length (slot_text fs (context_file sc) @ ''\<newline>''
                          @ slot_text fs (prompt_file sc) @ ''\<newline>''),
                name)"
  unfolding assemble_no_files[OF assms(1)] using assms(2,3) by simp

theorem context_then_prompt_single_newline_witness:
  "slot_text demo_fs (Some ''/proj/ctx.md'') = ''C''
   \<and> slot_text demo_fs (Some ''/proj/prompt.md'') = ''P''
   \<and> assemble demo_fs ''/proj'' ''default''
        \<lparr>files = [], context_file = Some ''/proj/ctx.md'', prompt_file = Some ''/proj/prompt.md''\<rparr>
      = ([], Inr (''C\<newline>P\<newline>'', 0, 4, ''default''))
   \<and> ''C\<newline>P\<newline>'' \<noteq> ''C\<newline>\<newline>P\<newline>''"
proof -
  let ?sc = "\<lparr>files = [], context_file = Some ''/proj/ctx.md'', prompt_file = Some ''/proj/prompt.md''\<rparr>"
  have s1: "slot_text demo_fs (Some ''/proj/ctx.md'') = ''C''" by code_simp
  have s2: "slot_text demo_fs (Some ''/proj/prompt.md'') = ''P''" by code_simp
  have h1: "files ?sc = []" by simp
  have h2: "slot_text demo_fs (context_file ?sc) \<noteq> ''''" using s1 by simp
  have h3: "slot_text demo_fs (prompt_file ?sc) \<noteq> ''''" using s2 by simp
  have m: "fst (assemble demo_fs ''/proj'' ''default'' ?sc) = []" by code_simp
  have "snd (assemble demo_fs ''/proj'' ''default'' ?sc) = Inr (''C\<newline>P\<newline>'', 0, 4, ''default'')"
    using context_then_prompt_single_newline [OF h1 h2 h3, of "''/proj''" "''default''"] s1 s2
    by simp
  with m have "assemble demo_fs ''/proj'' ''default'' ?sc = ([], Inr (''C\<newline>P\<newline>'', 0, 4, ''default''))"
    by (simp add: prod_eq_iff)
  with s1 s2 show ?thesis by simp
qed

text \<open>
  C6, as the claim states it, fails: \<open>get_current_scope_name\<close> returns a stored pointer
  that names no scope record, and the commands do not treat such a pointer as "none
  set". Assembling the active scope fails with "scope not found" instead of "no active
  scope", and \<open>add\<close> creates a scope of that name instead of failing.
\<close>

theorem dangling_pointer_counterexample:
  "get_current_scope_name [CURRENT_SCOPE_KEY \<mapsto> Str ''ghost''] = Some ''ghost''
   \<and> get_scope_data [CURRENT_SCOPE_KEY \<mapsto> Str ''ghost''] ''ghost'' = None
   \<and> get_formatted_scope_content demo_fs None [CURRENT_SCOPE_KEY \<mapsto> Str ''ghost''] ''/proj''
       = ([], Inl (ScopeNotFound ''ghost''))
   \<and> get_formatted_scope_content demo_fs None Map.empty ''/proj'' = ([], Inl NoActiveScope)
   \<and> map_sum id (\<lambda>c. get_scope_data c ''ghost'')
         (handle_add_cmd demo_fs
            \<lparr>arg_file_paths = [''/proj/a.txt''], arg_scope_name = None,
               arg_add_context = False, arg_add_prompt = False\<rparr>
            [CURRENT_SCOPE_KEY \<mapsto> Str ''ghost''])
       = Inr (Some \<lparr>files = [''/proj/a.txt''], context_file = None, prompt_file = None\<rparr>)
   \<and> map_sum id (\<lambda>c. get_scope_data c ''ghost'')
         (handle_add_cmd demo_fs
            \<lparr>arg_file_paths = [''/proj/a.txt''], arg_scope_name = None,
               arg_add_context = False, arg_add_prompt = False\<rparr>
            Map.empty)
       = Inl NoActiveScope"
  by code_simp

text \<open>
  C6, amended. \<open>get_current_scope_name\<close> returns the stored pointer as it is stored,
  whether or not it names a scope record, and changes nothing (it is a read of the
  document). What happens to a dangling pointer is decided by the caller. Assembling
  without a requested scope fails with "scope not found" when the pointer is a non-empty
  name that names no record; it fails with "no active scope" exactly when no pointer is
  stored or the stored pointer is the empty string (which names no record either); and it
  assembles the named scope when the pointer resolves.
\<close>

theorem active_pointer_unchecked:
  "(config CURRENT_SCOPE_KEY = Some (Str n) \<longrightarrow> get_current_scope_name config = Some n)
   \<and> (get_current_scope_name config = Some n \<and> n \<noteq> '''' \<and> get_scope_data config n = None
        \<longrightarrow> get_formatted_scope_content fs None config base = ([], Inl (ScopeNotFound n)))
   \<and> (snd (get_formatted_scope_content fs None config base) = Inl NoActiveScope
        \<longleftrightarrow> get_current_scope_name config = None \<or> get_current_scope_name config = Some '''')
   \<and> (get_current_scope_name config = None \<or> get_current_scope_name config = Some ''''
        \<longrightarrow> get_formatted_scope_content fs None config base = ([], Inl NoActiveScope))
   \<and> get_scope_data config '''' = None
   \<and> (get_current_scope_name config = Some n \<and> get_scope_data config n = Some scope_data
        \<longrightarrow> get_formatted_scope_content fs None config base = assemble fs base n scope_data)"
proof (intro conjI impI)
  assume "config CURRENT_SCOPE_KEY = Some (Str n)"
  then show "get_current_scope_name config = Some n" by (simp add: get_current_scope_name_def)
next
  assume "get_current_scope_name config = Some n \<and> n \<noteq> '''' \<and> get_scope_data config n = None"
  then show "get_formatted_scope_content fs None config base = ([], Inl (ScopeNotFound n))"
    by (simp add: get_formatted_scope_content_def)
next
  show "snd (get_formatted_scope_content fs None config base) = Inl NoActiveScope
        \<longleftrightarrow> get_current_scope_name config = None \<or> get_current_scope_name config = Some ''''"
  proof (cases "get_current_scope_name config")
    case None
    then show ?thesis by (simp add: get_formatted_scope_content_def)
  next
    case (Some m)
    show ?thesis
    proof (cases "m = ''''")
      case True
      with Some show ?thesis by (simp add: get_formatted_scope_content_def)
    next
      case False
      show ?thesis
      proof (cases "get_scope_data config m")
        case None
        with Some False show ?thesis by (simp add: get_formatted_scope_content_def)
      next
        case (Some sd)
        with \<open>get_current_scope_name config = Some m\<close> False show ?thesis
          using assemble_not_no_active_scope[of fs base m sd]
          by (simp add: get_formatted_scope_content_def)
      qed
    qed
  qed
next
  assume "get_current_scope_name config = None \<or> get_current_scope_name config = Some ''''"
  then show "get_formatted_scope_content fs None config base = ([], Inl NoActiveScope)"
    by (auto simp: get_formatted_scope_content_def)
next
  show "get_scope_data config '''' = None" by (rule get_scope_data_empty_name)
next
  assume a: "get_current_scope_name config = Some n \<and> get_scope_data config n = Some scope_data"
  then have "n \<noteq> ''''" using get_scope_data_empty_name[of config] by auto
  with a show "get_formatted_scope_content fs None config base = assemble fs base n scope_data"
    by (simp add: get_formatted_scope_content_def)
qed

theorem active_pointer_unchecked_witness:
  "get_current_scope_name [CURRENT_SCOPE_KEY \<mapsto> Str ''ghost''] = Some ''ghost''
   \<and> get_scope_data [CURRENT_SCOPE_KEY \<mapsto> Str ''ghost''] ''ghost'' = None
   \<and> get_formatted_scope_content demo_fs None [CURRENT_SCOPE_KEY \<mapsto> Str ''ghost''] ''/proj''
       = ([], Inl (ScopeNotFound ''ghost''))
   \<and> get_current_scope_name [CURRENT_SCOPE_KEY \<mapsto> Str ''''] = Some ''''
   \<and> get_formatted_scope_content demo_fs None [CURRENT_SCOPE_KEY \<mapsto> Str ''''] ''/proj''
       = ([], Inl NoActiveScope)
   \<and> get_current_scope_name Map.empty = None
   \<and> get_formatted_scope_content demo_fs None Map.empty ''/proj'' = ([], Inl NoActiveScope)"
proof -
  let ?c = "[CURRENT_SCOPE_KEY \<mapsto> Str ''ghost'']"
  let ?e = "[CURRENT_SCOPE_KEY \<mapsto> Str '''']"
  have h0: "?c CURRENT_SCOPE_KEY = Some (Str ''ghost'')" by simp
  have h2: "get_scope_data ?c ''ghost'' = None" by code_simp
  have h3: "''ghost'' \<noteq> ''''" by simp
  from active_pointer_unchecked [of ?c "''ghost''" demo_fs "''/proj''"] h0
  have h1: "get_current_scope_name ?c = Some ''ghost''" by blast
  from active_pointer_unchecked [of ?c "''ghost''" demo_fs "''/proj''"] h1 h2 h3
  have r1: "get_formatted_scope_content demo_fs None ?c ''/proj'' = ([], Inl (ScopeNotFound ''ghost''))"
    by blast
  have e0: "?e CURRENT_SCOPE_KEY = Some (Str '''')" by simp
  from active_pointer_unchecked [of ?e "''''" demo_fs "''/proj''"] e0
  have e1: "get_current_scope_name ?e = Some ''''" by blast
  from active_pointer_unchecked [of ?e "''''" demo_fs "''/proj''"] e1
  have r2: "get_formatted_scope_content demo_fs None ?e ''/proj'' = ([], Inl NoActiveScope)"
    by blast
  have n0: "get_current_scope_name (Map.empty :: config) = None"
    by (simp add: get_current_scope_name_def)
  from active_pointer_unchecked [of Map.empty "''''" demo_fs "''/proj''"] n0
  have r3: "get_formatted_scope_content demo_fs None Map.empty ''/proj'' = ([], Inl NoActiveScope)"
    by blast
  from h1 h2 r1 e1 r2 n0 r3 show ?thesis by blast
qed

text \<open>
  C7, as the claim states it, fails in one direction of its "if and only if": when the
  active pointer already names \<open>B\<close> (a dangling pointer, \<open>B\<close> being no scope) and
  scope \<open>A\<close> is renamed to \<open>B\<close>, the pointer names \<open>B\<close> afterwards although it
  did not name \<open>A\<close> before.
\<close>

theorem rename_pointer_counterexample:
  "get_scope_data [CURRENT_SCOPE_KEY \<mapsto> Str ''beta'', ''alpha'' \<mapsto> ScopeDict initialize_scope_dict]
       ''alpha'' = Some initialize_scope_dict
   \<and> is_valid_scope_name ''beta''
   \<and> get_scope_data [CURRENT_SCOPE_KEY \<mapsto> Str ''beta'', ''alpha'' \<mapsto> ScopeDict initialize_scope_dict]
       ''beta'' = None
   \<and> get_current_scope_name
         [CURRENT_SCOPE_KEY \<mapsto> Str ''beta'', ''alpha'' \<mapsto> ScopeDict initialize_scope_dict]
       \<noteq> Some ''alpha''
   \<and> map_sum id get_current_scope_name
         (handle_scope_rename_cmd
            [CURRENT_SCOPE_KEY \<mapsto> Str ''beta'', ''alpha'' \<mapsto> ScopeDict initialize_scope_dict]
            ''alpha'' ''beta'')
       = Inr (Some ''beta'')"
  by code_simp

text \<open>
  C7, amended. For every existing scope \<open>A\<close> and valid name \<open>B\<close> that is not already
  a scope name, renaming \<open>A\<close> to \<open>B\<close> writes a document in which \<open>B\<close>'s record has
  \<open>A\<close>'s former file set, context file and prompt file, \<open>A\<close> is no scope any more,
  and the active pointer names \<open>B\<close> if it named \<open>A\<close> before and is unchanged
  otherwise. The rename is rejected, and nothing is written, when \<open>B\<close> is an invalid
  name or already names a scope.
\<close>

theorem rename_scope:
  "(get_scope_data config A = Some r \<and> is_valid_scope_name B \<and> get_scope_data config B = None
      \<longrightarrow> (\<exists>c' r'. handle_scope_rename_cmd config A B = Inr c'
             \<and> get_scope_data c' B = Some r'
             \<and> set (files r') = set (files r)
             \<and> context_file r' = context_file r \<and> prompt_file r' = prompt_file r
             \<and> get_scope_data c' A = None
             \<and> get_current_scope_name c' =
                 (if get_current_scope_name config = Some A then Some B
                  else get_current_scope_name config)))
   \<and> (\<not> is_valid_scope_name B \<longrightarrow> (\<exists>e. handle_scope_rename_cmd config A B = Inl e))
   \<and> (get_scope_data config B \<noteq> None \<longrightarrow> (\<exists>e. handle_scope_rename_cmd config A B = Inl e))"
proof (intro conjI impI)
  assume h: "get_scope_data config A = Some r \<and> is_valid_scope_name B \<and> get_scope_data config B = None"
  then have a: "get_scope_data config A = Some r" and v: "is_valid_scope_name B"
    and n: "get_scope_data config B = None" by simp_all
  have ne: "A \<noteq> B" using a n by auto
  have vA: "is_valid_scope_name A" using a by (simp add: get_scope_data_Some_iff)
  have kA: "A \<noteq> CURRENT_SCOPE_KEY" and kB: "B \<noteq> CURRENT_SCOPE_KEY"
    using valid_not_current vA v by simp_all
  let ?c1 = "config(A := None, B \<mapsto> ScopeDict r)"
  let ?c2 = "if get_current_scope_name config = Some A
             then ?c1(CURRENT_SCOPE_KEY \<mapsto> Str B) else ?c1"
  let ?r' = "if \<not> startswith B ''_klyp_'' then r\<lparr>files := sort (remdups (files r))\<rparr> else r"
  have res: "handle_scope_rename_cmd config A B = Inr (save_config ?c2)"
    by (rule rename_result[OF a v n])
  have B2: "?c2 B = Some (ScopeDict r)" using kB by simp
  have A2: "?c2 A = None" using ne kA by simp
  have gB: "get_scope_data (save_config ?c2) B = Some ?r'"
    using v save_config_scope[of ?c2 B r, OF B2] by (simp only: get_scope_data_Some_iff simp_thms)
  have gA: "get_scope_data (save_config ?c2) A = None"
    using save_config_None[of ?c2 A, OF A2] by (simp only: get_scope_data_None_iff) simp
  have p1: "get_current_scope_name ?c1 = get_current_scope_name config"
    using kA kB by (simp add: get_current_scope_name_upd)
  have p: "get_current_scope_name (save_config ?c2) =
             (if get_current_scope_name config = Some A then Some B
              else get_current_scope_name config)"
    using p1 by (simp add: get_current_scope_name_save get_current_scope_name_set)
  have f: "set (files ?r') = set (files r)" "context_file ?r' = context_file r"
          "prompt_file ?r' = prompt_file r"
    by simp_all
  from res gB gA p f
  show "\<exists>c' r'. handle_scope_rename_cmd config A B = Inr c'
             \<and> get_scope_data c' B = Some r'
             \<and> set (files r') = set (files r)
             \<and> context_file r' = context_file r \<and> prompt_file r' = prompt_file r
             \<and> get_scope_data c' A = None
             \<and> get_current_scope_name c' =
                 (if get_current_scope_name config = Some A then Some B
                  else get_current_scope_name config)"
    by blast
next
  assume "\<not> is_valid_scope_name B"
  then show "\<exists>e. handle_scope_rename_cmd config A B = Inl e"
    by (simp add: handle_scope_rename_cmd_def)
next
  assume "get_scope_data config B \<noteq> None"
  then show "\<exists>e. handle_scope_rename_cmd config A B = Inl e"
    by (simp add: handle_scope_rename_cmd_def)
qed

theorem rename_scope_witness:
  "get_scope_data
     [CURRENT_SCOPE_KEY \<mapsto> Str ''alpha'',
      ''alpha'' \<mapsto> ScopeDict \<lparr>files = [''/proj/b.txt'', ''/proj/a.txt''],
                             context_file = Some ''/proj/ctx.md'', prompt_file = None\<rparr>]
     ''alpha''
     = Some \<lparr>files = [''/proj/b.txt'', ''/proj/a.txt''],
              context_file = Some ''/proj/ctx.md'', prompt_file = None\<rparr>
   \<and> is_valid_scope_name ''beta''
   \<and> get_scope_data
     [CURRENT_SCOPE_KEY \<mapsto> Str ''alpha'',
      ''alpha'' \<mapsto> ScopeDict \<lparr>files = [''/proj/b.txt'', ''/proj/a.txt''],
                             context_file = Some ''/proj/ctx.md'', prompt_file = None\<rparr>]
     ''beta'' = None
   \<and> map_sum id (\<lambda>c. (get_scope_data c ''beta'', get_scope_data c ''alpha'', get_current_scope_name c))
        (handle_scope_rename_cmd
           [CURRENT_SCOPE_KEY \<mapsto> Str ''alpha'',
            ''alpha'' \<mapsto> ScopeDict \<lparr>files = [''/proj/b.txt'', ''/proj/a.txt''],
                                   context_file = Some ''/proj/ctx.md'', prompt_file = None\<rparr>]
           ''alpha'' ''beta'')
       = Inr (Some \<lparr>files = [''/proj/a.txt'', ''/proj/b.txt''],
                     context_file = Some ''/proj/ctx.md'', prompt_file = None\<rparr>,
              None, Some ''beta'')
   \<and> (\<exists>c'. handle_scope_rename_cmd
           [CURRENT_SCOPE_KEY \<mapsto> Str ''alpha'',
            ''alpha'' \<mapsto> ScopeDict \<lparr>files = [''/proj/b.txt'', ''/proj/a.txt''],
                                   context_file = Some ''/proj/ctx.md'', prompt_file = None\<rparr>]
           ''alpha'' ''beta'' = Inr c')"
proof -
  let ?r = "\<lparr>files = [''/proj/b.txt'', ''/proj/a.txt''],
              context_file = Some ''/proj/ctx.md'', prompt_file = None\<rparr>"
  let ?c = "[CURRENT_SCOPE_KEY \<mapsto> Str ''alpha'', ''alpha'' \<mapsto> ScopeDict ?r]"
  have h1: "get_scope_data ?c ''alpha'' = Some ?r" by code_simp
  have h2: "is_valid_scope_name ''beta''" by code_simp
  have h3: "get_scope_data ?c ''beta'' = None" by code_simp
  have e: "map_sum id (\<lambda>c. (get_scope_data c ''beta'', get_scope_data c ''alpha'', get_current_scope_name c))
        (handle_scope_rename_cmd ?c ''alpha'' ''beta'')
       = Inr (Some \<lparr>files = [''/proj/a.txt'', ''/proj/b.txt''],
                     context_file = Some ''/proj/ctx.md'', prompt_file = None\<rparr>,
              None, Some ''beta'')"
    by code_simp
  have "\<exists>c'. handle_scope_rename_cmd ?c ''alpha'' ''beta'' = Inr c'"
    using rename_scope [of ?c "''alpha''" ?r "''beta''"] h1 h2 h3 by blast
  with h1 h2 h3 e show ?thesis by blast
qed

text \<open>
  C8, as the claim states it, fails. A document that already holds a file twice keeps
  both entries when the file is added again: \<open>handle_add_cmd\<close> saves only when it
  appended something. And \<open>save_config\<close> and \<open>is_valid_scope_name\<close> disagree on
  the names that begin with \<open>_klyp_\<close>: the first skips every such key, the second
  rejects the two metadata keys only, so that after \<open>klyp init\<close>, \<open>klyp use _klyp_x\<close>,
  \<open>klyp add b.txt\<close>, \<open>klyp add a.txt\<close> the document holds that scope's files in the
  order added, which is not sorted.
\<close>

theorem save_not_sorted_counterexample:
  "is_valid_scope_name ''_klyp_x''
   \<and> map_sum id (\<lambda>c. get_scope_data c ''_klyp_x'')
        (and_then
           (and_then (handle_scope_set_cmd handle_init_cmd ''_klyp_x'')
                     (handle_add_cmd demo_fs (add_file_args ''/proj/b.txt'')))
           (handle_add_cmd demo_fs (add_file_args ''/proj/a.txt'')))
      = Inr (Some \<lparr>files = [''/proj/b.txt'', ''/proj/a.txt''], context_file = None,
                    prompt_file = None\<rparr>)
   \<and> \<not> sorted [''/proj/b.txt'', ''/proj/a.txt'']
   \<and> map_sum id (\<lambda>c. get_scope_data c ''work'')
        (and_then
           (handle_add_cmd demo_fs (add_file_args ''/proj/a.txt'')
              [CURRENT_SCOPE_KEY \<mapsto> Str ''work'',
               ''work'' \<mapsto> ScopeDict \<lparr>files = [''/proj/a.txt'', ''/proj/a.txt''],
                                     context_file = None, prompt_file = None\<rparr>])
           (handle_add_cmd demo_fs (add_file_args ''/proj/a.txt'')))
      = Inr (Some \<lparr>files = [''/proj/a.txt'', ''/proj/a.txt''], context_file = None,
                    prompt_file = None\<rparr>)"
  by code_simp

text \<open>
  C8, amended. \<open>save_config\<close> writes the file list of every scope whose name does not
  begin with \<open>_klyp_\<close> sorted and without duplicates, with the same files, and leaves
  its context and prompt file as they are; every document \<open>handle_add_cmd\<close> writes is
  written by \<open>save_config\<close>. Adding the same file twice to a scope whose stored list
  holds it at most once (in particular, not at all) succeeds both times and leaves exactly
  one entry for it in the document. Nothing is stated about the file list of a scope
  whose name begins with \<open>_klyp_\<close>.
\<close>

theorem save_sorts_and_add_is_idempotent:
  "(data key = Some (ScopeDict sc) \<and> \<not> startswith key ''_klyp_''
      \<longrightarrow> (\<exists>sc'. save_config data key = Some (ScopeDict sc')
             \<and> files sc' = sort (remdups (files sc))
             \<and> sorted (files sc') \<and> distinct (files sc') \<and> set (files sc') = set (files sc)
             \<and> context_file sc' = context_file sc \<and> prompt_file sc' = prompt_file sc))
   \<and> (handle_add_cmd fs args config = Inr c' \<and> c' \<noteq> config \<longrightarrow> (\<exists>d. c' = save_config d))
   \<and> ((arg_scope_name args = Some t
          \<or> arg_scope_name args = None \<and> get_current_scope_name config = Some t)
        \<and> is_valid_scope_name t
        \<and> arg_file_paths args = [f] \<and> \<not> arg_add_context args \<and> \<not> arg_add_prompt args
        \<and> is_file fs f
        \<and> (\<forall>sc0. get_scope_data config t = Some sc0
               \<longrightarrow> count_list (files sc0) (resolve fs f) \<le> 1)
      \<longrightarrow> (\<exists>c1 sc1. handle_add_cmd fs args config = Inr c1
             \<and> handle_add_cmd fs args c1 = Inr c1
             \<and> get_scope_data c1 t = Some sc1
             \<and> count_list (files sc1) (resolve fs f) = 1))"
proof (intro conjI impI)
  assume h: "data key = Some (ScopeDict sc) \<and> \<not> startswith key ''_klyp_''"
  then have "save_config data key = Some (ScopeDict (sc\<lparr>files := sort (remdups (files sc))\<rparr>))"
    using save_config_scope[of data key sc] by simp
  then show "\<exists>sc'. save_config data key = Some (ScopeDict sc')
             \<and> files sc' = sort (remdups (files sc))
             \<and> sorted (files sc') \<and> distinct (files sc') \<and> set (files sc') = set (files sc)
             \<and> context_file sc' = context_file sc \<and> prompt_file sc' = prompt_file sc"
    by simp
next
  assume "handle_add_cmd fs args config = Inr c' \<and> c' \<noteq> config"
  then show "\<exists>d. c' = save_config d" using handle_add_written by blast
next
  assume h: "(arg_scope_name args = Some t
          \<or> arg_scope_name args = None \<and> get_current_scope_name config = Some t)
        \<and> is_valid_scope_name t
        \<and> arg_file_paths args = [f] \<and> \<not> arg_add_context args \<and> \<not> arg_add_prompt args
        \<and> is_file fs f
        \<and> (\<forall>sc0. get_scope_data config t = Some sc0
               \<longrightarrow> count_list (files sc0) (resolve fs f) \<le> 1)"
  show "\<exists>c1 sc1. handle_add_cmd fs args config = Inr c1
             \<and> handle_add_cmd fs args c1 = Inr c1
             \<and> get_scope_data c1 t = Some sc1
             \<and> count_list (files sc1) (resolve fs f) = 1"
    by (rule add_twice) (use h in blast)+
qed

theorem save_sorts_and_add_is_idempotent_witness:
  "get_current_scope_name
       [CURRENT_SCOPE_KEY \<mapsto> Str ''work'',
        ''work'' \<mapsto> ScopeDict \<lparr>files = [''/proj/b.txt''], context_file = None, prompt_file = None\<rparr>]
     = Some ''work''
   \<and> is_valid_scope_name ''work'' \<and> is_file demo_fs ''/proj/a.txt''
   \<and> \<not> startswith ''work'' ''_klyp_''
   \<and> count_list [''/proj/b.txt''] (resolve demo_fs ''/proj/a.txt'') \<le> 1
   \<and> map_sum id (\<lambda>c. get_scope_data c ''work'')
        (and_then
           (handle_add_cmd demo_fs (add_file_args ''/proj/a.txt'')
              [CURRENT_SCOPE_KEY \<mapsto> Str ''work'',
               ''work'' \<mapsto> ScopeDict \<lparr>files = [''/proj/b.txt''], context_file = None,
                                     prompt_file = None\<rparr>])
           (handle_add_cmd demo_fs (add_file_args ''/proj/a.txt'')))
      = Inr (Some \<lparr>files = [''/proj/a.txt'', ''/proj/b.txt''], context_file = None,
                    prompt_file = None\<rparr>)
   \<and> (\<exists>c1. handle_add_cmd demo_fs (add_file_args ''/proj/a.txt'')
              [CURRENT_SCOPE_KEY \<mapsto> Str ''work'',
               ''work'' \<mapsto> ScopeDict \<lparr>files = [''/proj/b.txt''], context_file = None,
                                     prompt_file = None\<rparr>] = Inr c1
          \<and> handle_add_cmd demo_fs (add_file_args ''/proj/a.txt'') c1 = Inr c1)
   \<and> (\<exists>sc'. save_config
          [CURRENT_SCOPE_KEY \<mapsto> Str ''work'',
           ''work'' \<mapsto> ScopeDict \<lparr>files = [''/proj/b.txt''], context_file = None,
                                 prompt_file = None\<rparr>] ''work'' = Some (ScopeDict sc')
          \<and> sorted (files sc') \<and> distinct (files sc'))"
proof -
  let ?sc = "\<lparr>files = [''/proj/b.txt''], context_file = None, prompt_file = None\<rparr>"
  let ?c = "[CURRENT_SCOPE_KEY \<mapsto> Str ''work'', ''work'' \<mapsto> ScopeDict ?sc]"
  let ?args = "add_file_args ''/proj/a.txt''"
  have p: "get_current_scope_name ?c = Some ''work''" by code_simp
  have v: "is_valid_scope_name ''work''" by code_simp
  have i: "is_file demo_fs ''/proj/a.txt''" by (simp add: demo_fs_def)
  have k: "\<not> startswith ''work'' ''_klyp_''" by (simp add: startswith_def)
  have r: "resolve demo_fs ''/proj/a.txt'' = ''/proj/a.txt''" by code_simp
  have n: "count_list [''/proj/b.txt''] (resolve demo_fs ''/proj/a.txt'') \<le> 1" by (simp add: r)
  have g: "get_scope_data ?c ''work'' = Some ?sc" by code_simp
  have a: "arg_scope_name ?args = None" "arg_file_paths ?args = [''/proj/a.txt'']"
          "\<not> arg_add_context ?args" "\<not> arg_add_prompt ?args"
    by (simp_all add: add_file_args_def)
  have once: "\<forall>sc0. get_scope_data ?c ''work'' = Some sc0
                \<longrightarrow> count_list (files sc0) (resolve demo_fs ''/proj/a.txt'') \<le> 1"
    using n by (simp add: g)
  have w: "?c ''work'' = Some (ScopeDict ?sc)" by simp
  have e: "map_sum id (\<lambda>c. get_scope_data c ''work'')
        (and_then (handle_add_cmd demo_fs ?args ?c) (handle_add_cmd demo_fs ?args))
      = Inr (Some \<lparr>files = [''/proj/a.txt'', ''/proj/b.txt''], context_file = None,
                    prompt_file = None\<rparr>)"
    by code_simp
  note T = save_sorts_and_add_is_idempotent
             [of ?c "''work''" ?sc demo_fs ?args ?c ?c "''work''" "''/proj/a.txt''"]
  have 1: "\<exists>c1. handle_add_cmd demo_fs ?args ?c = Inr c1
                \<and> handle_add_cmd demo_fs ?args c1 = Inr c1"
    using T p v i a once by blast
  have 2: "\<exists>sc'. save_config ?c ''work'' = Some (ScopeDict sc')
                \<and> sorted (files sc') \<and> distinct (files sc')"
    using T w k by blast
  from p v i k n e 1 2 show ?thesis by blast
qed

end
